(* ===== verification/Cep_Prelude.thy ===== *)
theory Cep_Prelude
  imports Main "HOL-Library.AList" "HOL-Library.Multiset"
begin

text \<open>
  Shared vocabulary of the development: the names of the model's base types, the
  collections of facts the component theories extend, and the generic lemmas on
  association lists and on permutations of lists that more than one component uses.
\<close>

section \<open>Base types\<close>

text \<open>
  \<open>time.Duration\<close> is a signed 64-bit count of nanoseconds. The program only compares
  durations and prints them; it never adds or subtracts two of them as integers, so no
  operation of the program can wrap, and \<open>int\<close> is the faithful model.
\<close>

type_synonym duration = int
type_synonym api_name = string
type_synonym url = string

section \<open>Fact collections\<close>

named_theorems cep_defs \<open>definitions of the model that proofs and instances unfold as a group\<close>
named_theorems cep_inv \<open>definitions of the invariants of the race systems\<close>

section \<open>Association lists as finite maps\<close>

text \<open>
  A Go \<open>map[string]T\<close> is modelled by an association list with distinct keys;
  \<open>m[k] = v\<close> is \<open>AList.update k v\<close>, \<open>len(m)\<close> is \<open>length\<close>. Storing under a key that
  is not in the table adds one entry.
\<close>

lemma update_fresh_append:
  "k \<notin> fst ` set al \<Longrightarrow> AList.update k v al = al @ [(k, v)]"
  by (induction al) auto

lemma mset_update_fresh:
  "k \<notin> fst ` set al \<Longrightarrow> mset (AList.update k v al) = add_mset (k, v) (mset al)"
  by (simp add: update_fresh_append)

section \<open>Iteration orders\<close>

text \<open>
  The order in which \<open>range\<close> visits the entries of a map is unspecified: it is any
  list with the same multiset of entries. A table of at most two entries has the two
  orders \<open>orders\<close> lists.
\<close>

definition orders :: "'a list \<Rightarrow> 'a list list" where
  "orders xs = [xs, rev xs]"

lemma mset_eq_Nil_iff: "mset it = mset tbl \<Longrightarrow> it = [] \<longleftrightarrow> tbl = []"
  by (metis mset_zero_iff)


lemma mset_eq_orders:
  assumes "length tr \<le> 2" and "mset it = mset tr"
  shows "it \<in> set (orders tr)"
proof -
  from assms(2) have l: "length it = length tr" by (rule mset_eq_length)
  consider "tr = []" | a where "tr = [a]" | a b where "tr = [a, b]"
    using assms(1) by (cases tr; cases "tl tr"; cases "tl (tl tr)") auto
  then show ?thesis
  proof cases
    case 1
    with assms(2) show ?thesis by (simp add: orders_def)
  next
    case 2
    with assms(2) show ?thesis by (simp add: orders_def)
  next
    case 3
    with l obtain x y where "it = [x, y]"
      by (cases it; cases "tl it") auto
    with 3 assms(2) show ?thesis
      by (auto simp: orders_def add_eq_conv_ex)
  qed
qed

end
