(* ===== verification/Cep_Data.thy ===== *)
theory Cep_Data
  imports Cep_Prelude
begin

text \<open>
  The data model of both programs (\<open>src/main.go\<close> and \<open>src/unnamed/part_000\<close>): the two
  backend schemas, the response record that travels through the result channel, the
  errors a lookup can report, the lines the program prints, and the type switch that
  normalises a backend record into the five printed address fields.
\<close>

section \<open>Backend schemas\<close>

text \<open>
  The Go structs \<open>BrasilAPICEP\<close> and \<open>ViaCEP\<close>. Both have a field \<open>Cep\<close>; record fields are
  global names in HOL, so every field carries the prefix of its struct (\<open>b_\<close>, \<open>v_\<close>).
\<close>

record BrasilAPICEP =
  b_Cep :: string
  b_State :: string
  b_City :: string
  b_Neighborhood :: string
  b_Street :: string
  b_Service :: string

record ViaCEP =
  v_Cep :: string
  v_Logradouro :: string
  v_Complemento :: string
  v_Bairro :: string
  v_Localidade :: string
  v_Uf :: string
  v_Ibge :: string
  v_Gia :: string
  v_Ddd :: string
  v_Siafi :: string

section \<open>Errors\<close>

text \<open>
  The \<open>error\<close> values a lookup stores in \<open>Response.Error\<close>, tagged by the call that produced
  them. The string is the library's message; \<open>StatusCodeError\<close> is the program's own
  \<open>fmt.Errorf("status code: %d", resp.StatusCode)\<close> and carries the status.
\<close>

datatype go_error =
    RequestBuildError string
  | TransportError string
  | StatusCodeError int
  | BodyReadError string
  | DecodeError string

section \<open>Responses\<close>

text \<open>
  \<open>Data interface{}\<close> holds nothing (the zero value, on every error path) or one of the
  two structs.
\<close>

datatype payload = NilData | BrasilData BrasilAPICEP | ViaData ViaCEP

text \<open>
  \<open>Response0\<close> is the struct of \<open>part_000\<close>; \<open>Response\<close> is the struct of \<open>main.go\<close>, which
  adds the field \<open>Duration\<close> to it.
\<close>

record Response0 =
  Data :: payload
  APIName :: api_name
  Error :: "go_error option"

record Response = Response0 +
  Duration :: duration

definition untimed :: "Response \<Rightarrow> Response0" where
  "untimed r = \<lparr>Data = Data r, APIName = APIName r, Error = Error r\<rparr>"

section \<open>Console output\<close>

text \<open>
  One constructor per \<open>Printf\<close>/\<open>Println\<close> of the programs, carrying the arguments of the
  format string. The rendering of the arguments (\<open>%s\<close>, \<open>%v\<close>, \<open>%.3f\<close>) is not modelled.
  \<open>Fastest_Response\<close> carries the duration in \<open>main.go\<close> and \<open>None\<close> in \<open>part_000\<close>, whose
  format string has no duration. \<open>Compare_Diff\<close> carries the two durations whose
  \<open>Seconds()\<close> are subtracted, slowest first.
\<close>

datatype out_line =
    Usage
  | Searching string
  | Api_Error api_name go_error
  | Fastest_Response api_name "duration option"
  | Address string string string string string
  | Timeout
  | Compare_Header
  | Compare_Fastest api_name duration
  | Compare_Slowest api_name duration
  | Compare_Diff duration duration
  | Compare_Entry api_name duration
  | Compare_Unavailable

section \<open>The type switch on the payload\<close>

text \<open>
  \<open>switch data := result.Data.(type)\<close>: the five values printed as CEP, Estado, Cidade,
  Bairro and Rua, in this order. A payload of neither type prints nothing.
\<close>

text \<open>The lines of the comparison block, which only \<open>main.go\<close> prints.\<close>

fun compare_line :: "out_line \<Rightarrow> bool" where
  "compare_line Compare_Header = True"
| "compare_line (Compare_Fastest _ _) = True"
| "compare_line (Compare_Slowest _ _) = True"
| "compare_line (Compare_Diff _ _) = True"
| "compare_line (Compare_Entry _ _) = True"
| "compare_line Compare_Unavailable = True"
| "compare_line _ = False"

fun print_address :: "payload \<Rightarrow> out_line list" where
  "print_address (BrasilData d) =
     [Address (b_Cep d) (b_State d) (b_City d) (b_Neighborhood d) (b_Street d)]"
| "print_address (ViaData d) =
     [Address (v_Cep d) (v_Uf d) (v_Localidade d) (v_Bairro d) (v_Logradouro d)]"
| "print_address NilData = []"

lemma untimed_simps [simp]:
  "Data (untimed r) = Data r" "APIName (untimed r) = APIName r" "Error (untimed r) = Error r"
  by (simp_all add: untimed_def)

end
