(* ===== verification/Cep_Lookup.thy ===== *)
theory Cep_Lookup
  imports Cep_Data "HOL-Library.Sublist"
begin

text \<open>
  The lookup tasks: \<open>fetchBrasilAPI\<close> and \<open>fetchViaCEP\<close> of \<open>src/main.go\<close>, and the two
  functions of the same names in \<open>src/unnamed/part_000\<close> (here with the suffix \<open>0\<close>).
  What the network and the decoder answer is a parameter (\<open>world\<close>); what a task does
  with the answer is the function. A task's result is its program: the list, in order,
  of the operations it performs on the objects it shares with the other goroutines.
\<close>

section \<open>The environment of a lookup\<close>

text \<open>
  One HTTP exchange, as the results of the library calls a task makes, in the order it
  makes them: \<open>http.NewRequestWithContext\<close>, \<open>client.Do\<close>, \<open>resp.StatusCode\<close>,
  \<open>io.ReadAll\<close>, and the reading of \<open>time.Since(startTime)\<close> at the point where the task
  builds its \<open>Response\<close>. \<open>do_err\<close> covers every transport failure, cancellation by the
  context's deadline included.
\<close>

record http_exchange =
  new_request_err :: "string option"
  do_err :: "string option"
  status_code :: int
  read_err :: "string option"
  body :: string
  elapsed :: duration

text \<open>
  The world answers a URL with an exchange and decodes a body with \<open>json.Unmarshal\<close>
  into either struct (\<open>Inl\<close> is the decoder's error message).
\<close>

record world =
  http_get :: "url \<Rightarrow> http_exchange"
  unmarshal_BrasilAPICEP :: "string \<Rightarrow> string + BrasilAPICEP"
  unmarshal_ViaCEP :: "string \<Rightarrow> string + ViaCEP"

section \<open>Programs\<close>

text \<open>
  The operations of a task on shared objects: \<open>mu.Lock()\<close>, \<open>results[k] = d\<close>,
  \<open>mu.Unlock()\<close>, \<open>resultChan <- r\<close> and the deferred \<open>wg.Done()\<close>.
\<close>

datatype 'r action = Lock | Store api_name duration | Unlock | Send 'r | WgDone

fun sends :: "'r action list \<Rightarrow> 'r list" where
  "sends [] = []"
| "sends (Send r # as) = r # sends as"
| "sends (a # as) = sends as"

fun stores :: "'r action list \<Rightarrow> (api_name \<times> duration) list" where
  "stores [] = []"
| "stores (Store k d # as) = (k, d) # stores as"
| "stores (a # as) = stores as"

text \<open>The two lookups a race starts, and the name each one reports under.\<close>

datatype task_id = Brasil | Via

definition task_name :: "task_id \<Rightarrow> api_name" where
  "task_name t = (case t of Brasil \<Rightarrow> ''BrasilAPI'' | Via \<Rightarrow> ''ViaCEP'')"

lemma task_name_distinct [simp]: "task_name Brasil \<noteq> task_name Via" "task_name Via \<noteq> task_name Brasil"
  by (simp_all add: task_name_def)

section \<open>The request up to the body\<close>

text \<open>
  The part all four functions share: build the request, perform it, check the status,
  read the body. The first failing call decides the error.
\<close>

definition StatusOK :: int where
  "StatusOK = 200"

definition http_body :: "http_exchange \<Rightarrow> go_error + string" where
  "http_body x =
     (case new_request_err x of
        Some e \<Rightarrow> Inl (RequestBuildError e)
      | None \<Rightarrow>
         (case do_err x of
            Some e \<Rightarrow> Inl (TransportError e)
          | None \<Rightarrow>
             if status_code x \<noteq> StatusOK then Inl (StatusCodeError (status_code x))
             else (case read_err x of
                     Some e \<Rightarrow> Inl (BodyReadError e)
                   | None \<Rightarrow> Inr (body x))))"

definition brasil_url :: "string \<Rightarrow> url" where
  "brasil_url cep = ''https://brasilapi.com.br/api/cep/v1/'' @ cep"

definition via_url :: "string \<Rightarrow> url" where
  "via_url cep = ''http://viacep.com.br/ws/'' @ cep @ ''/json/''"

section \<open>The tasks of main.go\<close>

definition failed :: "api_name \<Rightarrow> go_error \<Rightarrow> duration \<Rightarrow> Response" where
  "failed apiName err d = \<lparr>Data = NilData, APIName = apiName, Error = Some err, Duration = d\<rparr>"

definition fetchBrasilAPI :: "world \<Rightarrow> string \<Rightarrow> Response action list" where
  "fetchBrasilAPI w cep =
     (let apiName = ''BrasilAPI'';
          x = http_get w (brasil_url cep)
      in case http_body x of
           Inl err \<Rightarrow> [Send (failed apiName err (elapsed x)), WgDone]
         | Inr b \<Rightarrow>
            (case unmarshal_BrasilAPICEP w b of
               Inl e \<Rightarrow> [Send (failed apiName (DecodeError e) (elapsed x)), WgDone]
             | Inr data \<Rightarrow>
                 let duration = elapsed x
                 in [Lock, Store apiName duration, Unlock,
                     Send \<lparr>Data = BrasilData data, APIName = apiName, Error = None,
                           Duration = duration\<rparr>,
                     WgDone]))"

definition fetchViaCEP :: "world \<Rightarrow> string \<Rightarrow> Response action list" where
  "fetchViaCEP w cep =
     (let apiName = ''ViaCEP'';
          x = http_get w (via_url cep)
      in case http_body x of
           Inl err \<Rightarrow> [Send (failed apiName err (elapsed x)), WgDone]
         | Inr b \<Rightarrow>
            (case unmarshal_ViaCEP w b of
               Inl e \<Rightarrow> [Send (failed apiName (DecodeError e) (elapsed x)), WgDone]
             | Inr data \<Rightarrow>
                 let duration = elapsed x
                 in [Lock, Store apiName duration, Unlock,
                     Send \<lparr>Data = ViaData data, APIName = apiName, Error = None,
                           Duration = duration\<rparr>,
                     WgDone]))"

section \<open>The tasks of part_000\<close>

definition failed0 :: "api_name \<Rightarrow> go_error \<Rightarrow> Response0" where
  "failed0 apiName err = \<lparr>Data = NilData, APIName = apiName, Error = Some err\<rparr>"

definition fetchBrasilAPI0 :: "world \<Rightarrow> string \<Rightarrow> Response0 action list" where
  "fetchBrasilAPI0 w cep =
     (let x = http_get w (brasil_url cep)
      in case http_body x of
           Inl err \<Rightarrow> [Send (failed0 ''BrasilAPI'' err)]
         | Inr b \<Rightarrow>
            (case unmarshal_BrasilAPICEP w b of
               Inl e \<Rightarrow> [Send (failed0 ''BrasilAPI'' (DecodeError e))]
             | Inr data \<Rightarrow>
                 [Send \<lparr>Data = BrasilData data, APIName = ''BrasilAPI'', Error = None\<rparr>]))"

definition fetchViaCEP0 :: "world \<Rightarrow> string \<Rightarrow> Response0 action list" where
  "fetchViaCEP0 w cep =
     (let x = http_get w (via_url cep)
      in case http_body x of
           Inl err \<Rightarrow> [Send (failed0 ''ViaCEP'' err)]
         | Inr b \<Rightarrow>
            (case unmarshal_ViaCEP w b of
               Inl e \<Rightarrow> [Send (failed0 ''ViaCEP'' (DecodeError e))]
             | Inr data \<Rightarrow>
                 [Send \<lparr>Data = ViaData data, APIName = ''ViaCEP'', Error = None\<rparr>]))"

section \<open>The shape of a program\<close>

text \<open>
  Every program of \<open>main.go\<close> has one of two shapes: the failure shape publishes an error
  and signals the wait group; the success shape records its timing under the lock first.
\<close>

definition failure_prog :: "api_name \<Rightarrow> Response action list \<Rightarrow> bool" where
  "failure_prog n p \<longleftrightarrow>
     (case sends p of
        [r] \<Rightarrow> p = [Send r, WgDone] \<and> APIName r = n \<and> Error r \<noteq> None \<and> Data r = NilData
      | _ \<Rightarrow> False)"

definition success_prog :: "api_name \<Rightarrow> Response action list \<Rightarrow> bool" where
  "success_prog n p \<longleftrightarrow>
     (case sends p of
        [r] \<Rightarrow> p = [Lock, Store n (Duration r), Unlock, Send r, WgDone] \<and>
               APIName r = n \<and> Error r = None \<and> Data r \<noteq> NilData
      | _ \<Rightarrow> False)"

definition task_prog :: "api_name \<Rightarrow> Response action list \<Rightarrow> bool" where
  "task_prog n p \<longleftrightarrow> failure_prog n p \<or> success_prog n p"

lemmas lookup_defs [cep_defs] =
  fetchBrasilAPI_def fetchViaCEP_def fetchBrasilAPI0_def fetchViaCEP0_def
  failed_def failed0_def

lemmas prog_defs = task_prog_def failure_prog_def success_prog_def

section \<open>Fixtures\<close>

text \<open>
  Concrete worlds for the closed instances of the theorems below: an exchange that
  succeeds, one that answers with a given status, and a world that serves one exchange
  to the BrasilAPI URL (the only one with the scheme \<open>https\<close>) and another to ViaCEP.
\<close>

definition exchange_ok :: "string \<Rightarrow> duration \<Rightarrow> http_exchange" where
  "exchange_ok b d =
     \<lparr>new_request_err = None, do_err = None, status_code = 200, read_err = None,
      body = b, elapsed = d\<rparr>"

definition exchange_status :: "int \<Rightarrow> duration \<Rightarrow> http_exchange" where
  "exchange_status c d = (exchange_ok [] d)\<lparr>status_code := c\<rparr>"

definition exchange_down :: "string \<Rightarrow> duration \<Rightarrow> http_exchange" where
  "exchange_down m d = (exchange_ok [] d)\<lparr>do_err := Some m\<rparr>"

definition sample_brasil :: BrasilAPICEP where
  "sample_brasil =
     \<lparr>b_Cep = ''01153000'', b_State = ''SP'', b_City = ''Sao Paulo'',
      b_Neighborhood = ''Barra Funda'', b_Street = ''Rua Vitorino Carmilo'',
      b_Service = ''open-cep''\<rparr>"

definition sample_via :: ViaCEP where
  "sample_via =
     \<lparr>v_Cep = ''01153-000'', v_Logradouro = ''Rua Vitorino Carmilo'', v_Complemento = [],
      v_Bairro = ''Barra Funda'', v_Localidade = ''Sao Paulo'', v_Uf = ''SP'',
      v_Ibge = ''3550308'', v_Gia = ''1004'', v_Ddd = ''11'', v_Siafi = ''7107''\<rparr>"

definition two_backends ::
  "http_exchange \<Rightarrow> http_exchange \<Rightarrow> string + BrasilAPICEP \<Rightarrow> string + ViaCEP \<Rightarrow> world" where
  "two_backends xb xv db dv =
     \<lparr>http_get = (\<lambda>u. if take 5 u = ''https'' then xb else xv),
      unmarshal_BrasilAPICEP = (\<lambda>_. db), unmarshal_ViaCEP = (\<lambda>_. dv)\<rparr>"

definition world_both_ok :: world where
  "world_both_ok =
     two_backends (exchange_ok [] 120) (exchange_ok [] 80) (Inr sample_brasil) (Inr sample_via)"

definition world_brasil_down :: world where
  "world_brasil_down =
     two_backends (exchange_down ''connection refused'' 15) (exchange_ok [] 80)
       (Inr sample_brasil) (Inr sample_via)"

lemma two_backends_simps [simp]:
  "http_get (two_backends xb xv db dv) (brasil_url cep) = xb"
  "http_get (two_backends xb xv db dv) (via_url cep) = xv"
  "unmarshal_BrasilAPICEP (two_backends xb xv db dv) b = db"
  "unmarshal_ViaCEP (two_backends xb xv db dv) b = dv"
  by (simp_all add: two_backends_def brasil_url_def via_url_def)

lemmas exchange_defs = exchange_ok_def exchange_status_def exchange_down_def

lemmas world_defs = world_both_ok_def world_brasil_down_def

section \<open>The request: which call decides\<close>

lemma http_body_Inr_iff:
  "http_body x = Inr b \<longleftrightarrow>
     new_request_err x = None \<and> do_err x = None \<and> status_code x = StatusOK \<and>
     read_err x = None \<and> b = body x"
  by (auto simp: http_body_def split: option.splits)

lemma http_body_Inl_iff:
  "http_body x = Inl e \<longleftrightarrow>
     (case e of
        RequestBuildError m \<Rightarrow> new_request_err x = Some m
      | TransportError m \<Rightarrow> new_request_err x = None \<and> do_err x = Some m
      | StatusCodeError c \<Rightarrow>
          new_request_err x = None \<and> do_err x = None \<and> c = status_code x \<and> c \<noteq> StatusOK
      | BodyReadError m \<Rightarrow>
          new_request_err x = None \<and> do_err x = None \<and> status_code x = StatusOK \<and>
          read_err x = Some m
      | DecodeError m \<Rightarrow> False)"
  by (cases e) (auto simp: http_body_def split: option.splits)

lemma http_body_fixtures [simp]:
  "http_body (exchange_ok b d) = Inr b"
  "c \<noteq> 200 \<Longrightarrow> http_body (exchange_status c d) = Inl (StatusCodeError c)"
  "http_body (exchange_down m d) = Inl (TransportError m)"
  by (simp_all add: http_body_def exchange_defs StatusOK_def)

lemma elapsed_fixtures [simp]:
  "elapsed (exchange_ok b d) = d" "elapsed (exchange_status c d) = d"
  "elapsed (exchange_down m d) = d"
  by (simp_all add: exchange_defs)

section \<open>Every program has one of the two shapes\<close>

lemma task_prog_cases [consumes 1, case_names failure success]:
  assumes "task_prog n p"
  obtains r where "p = [Send r, WgDone]" "APIName r = n" "Error r \<noteq> None" "Data r = NilData"
  | r where "p = [Lock, Store n (Duration r), Unlock, Send r, WgDone]" "APIName r = n"
      "Error r = None" "Data r \<noteq> NilData"
  using assms by (auto simp: prog_defs split: list.splits)

lemma fetchBrasilAPI_task_prog [simp, intro]: "task_prog ''BrasilAPI'' (fetchBrasilAPI w cep)"
  by (simp add: prog_defs lookup_defs Let_def split: sum.splits)

lemma fetchViaCEP_task_prog [simp, intro]: "task_prog ''ViaCEP'' (fetchViaCEP w cep)"
  by (simp add: prog_defs lookup_defs Let_def split: sum.splits)

lemma task_prog_sends: "task_prog n p \<Longrightarrow> \<exists>r. sends p = [r] \<and> APIName r = n"
  by (erule task_prog_cases) auto

lemma task_prog_stores:
  "task_prog n p \<Longrightarrow>
   stores p = map (\<lambda>r. (APIName r, Duration r)) (filter (\<lambda>r. Error r = None) (sends p))"
  by (erule task_prog_cases) auto

section \<open>Positions in a program\<close>

text \<open>
  While a task runs, what remains of its program is a suffix of it. \<open>holds\<close> says that
  the task is between its \<open>Lock\<close> and its \<open>Unlock\<close>, \<open>running\<close> counts a task that has not
  yet executed its deferred \<open>wg.Done()\<close>, \<open>performed\<close> is the part already executed.
\<close>

fun holds :: "'r action list \<Rightarrow> bool" where
  "holds (Store k d # rest) = True"
| "holds (Unlock # rest) = True"
| "holds rest = False"

definition running :: "'r action list \<Rightarrow> nat" where
  "running rest = (if rest = [] then 0 else 1)"

definition performed :: "'r action list \<Rightarrow> 'r action list \<Rightarrow> 'r action list" where
  "performed p rest = take (length p - length rest) p"

text \<open>
  A task starts outside the critical section; its last operation is \<open>wg.Done()\<close>, and the
  operations before it publish its response.
\<close>

lemma task_prog_not_holds: "task_prog n p \<Longrightarrow> \<not> holds p"
  by (erule task_prog_cases) simp_all

lemma task_prog_send_position:
  assumes "task_prog n p" and "sends p = [r]"
  shows "drop (length p - Suc 0) p = [WgDone]" and "sends (take (length p - Suc 0) p) = [r]"
    and "length p - Suc 0 \<le> length p"
  using assms by (auto elim!: task_prog_cases)

lemma sends_append [simp]: "sends (xs @ ys) = sends xs @ sends ys"
  by (induction xs rule: sends.induct) simp_all

lemma stores_append [simp]: "stores (xs @ ys) = stores xs @ stores ys"
  by (induction xs rule: stores.induct) simp_all

lemma performed_all [simp]: "performed p p = []"
  by (simp add: performed_def)

lemma performed_none [simp]: "performed p [] = p"
  by (simp add: performed_def)

lemma performed_append: "suffix rest p \<Longrightarrow> performed p rest @ rest = p"
  by (metis performed_def suffix_take)

lemma performed_step:
  assumes "suffix (a # rest) p"
  shows "performed p rest = performed p (a # rest) @ [a]"
proof -
  from assms have "suffix rest p" by (rule suffix_ConsD)
  then have "performed p rest @ rest = performed p (a # rest) @ a # rest"
    using assms by (simp add: performed_append)
  then show ?thesis by simp
qed

lemma task_rest_shape:
  assumes "task_prog n p" and "suffix rest p"
  obtains (finished) "rest = []"
  | (signal) "rest = [WgDone]"
  | (send) r where "rest = [Send r, WgDone]" "APIName r = n" "r \<in> set (sends p)"
  | (unlock) r where "rest = [Unlock, Send r, WgDone]"
  | (store) r where "rest = [Store n (Duration r), Unlock, Send r, WgDone]"
  | (lock) r where "rest = [Lock, Store n (Duration r), Unlock, Send r, WgDone]"
  using assms by (elim task_prog_cases) (auto simp: suffix_Cons)

text \<open>What the first pending operation says about the rest of the program.\<close>

lemma next_action:
  assumes "task_prog n p" and "suffix (a # rest) p"
  shows "(rest = [] \<longleftrightarrow> a = WgDone)"
    and "(holds rest \<longleftrightarrow> a = Lock \<or> (\<exists>k d. a = Store k d))"
    and "(\<forall>k d. a = Store k d \<longrightarrow> k = n \<and> stores p = [(k, d)])"
    and "sends rest = (case a of WgDone \<Rightarrow> [] | Send r \<Rightarrow> [] | _ \<Rightarrow> sends p)"
    and "length (sends p) = 1"
  using assms by (auto elim!: task_prog_cases simp: suffix_Cons)

lemma stores_performed_subset:
  "suffix rest p \<Longrightarrow> set (stores (performed p rest)) \<subseteq> set (stores p)"
  by (metis Un_upper1 performed_append set_append stores_append)

lemma stores_performed_length:
  "suffix rest p \<Longrightarrow> length (stores (performed p rest)) \<le> length (stores p)"
  by (metis le_add1 length_append performed_append stores_append)

lemma task_prog_store_keys: "task_prog n p \<Longrightarrow> fst ` set (stores p) \<subseteq> {n}"
  by (erule task_prog_cases) auto

lemma performed_store_keys:
  "task_prog n p \<Longrightarrow> suffix rest p \<Longrightarrow> fst ` set (stores (performed p rest)) \<subseteq> {n}"
  using stores_performed_subset task_prog_store_keys by fastforce

lemma performed_before_store:
  assumes "task_prog n p" and "suffix (Store k d # rest) p"
  shows "stores (performed p (Store k d # rest)) = []"
  using assms by (elim task_prog_cases) (auto simp: suffix_Cons performed_def)

lemma stores_performed_step:
  "suffix (a # rest) p \<Longrightarrow> stores (performed p rest) = stores (performed p (a # rest)) @ stores [a]"
  by (simp add: performed_step)

section \<open>Properties of the tasks\<close>

text \<open>
  C10. Exactly one response per task. Whatever the network and the decoder answer, each
  of the four lookup functions sends exactly one value on the result channel: no path
  returns without publishing and no path publishes twice.
\<close>

theorem fetch_publishes_exactly_one:
  "length (sends (fetchBrasilAPI w cep)) = 1 \<and> length (sends (fetchViaCEP w cep)) = 1 \<and>
   length (sends (fetchBrasilAPI0 w cep)) = 1 \<and> length (sends (fetchViaCEP0 w cep)) = 1"
  by (simp add: lookup_defs Let_def split: sum.splits)

text \<open>
  C27. The timing table is written exactly on success. The entries a task of \<open>main.go\<close>
  stores in \<open>timingResults\<close> are the name and duration of the responses it publishes
  without an error: a failed lookup stores nothing, a successful one stores the very
  duration it reports.
\<close>

theorem timing_stored_iff_success:
  "stores (fetchBrasilAPI w cep) =
     map (\<lambda>r. (APIName r, Duration r)) (filter (\<lambda>r. Error r = None) (sends (fetchBrasilAPI w cep)))
   \<and> stores (fetchViaCEP w cep) =
     map (\<lambda>r. (APIName r, Duration r)) (filter (\<lambda>r. Error r = None) (sends (fetchViaCEP w cep)))"
  by (simp add: task_prog_stores [OF fetchBrasilAPI_task_prog]
      task_prog_stores [OF fetchViaCEP_task_prog])

text \<open>
  C30. The two programs agree on what they publish. The response a lookup of \<open>part_000\<close>
  sends is the response the lookup of \<open>main.go\<close> sends in the same world, without its
  duration.
\<close>

theorem fetch0_is_untimed_fetch:
  "sends (fetchBrasilAPI0 w cep) = map untimed (sends (fetchBrasilAPI w cep)) \<and>
   sends (fetchViaCEP0 w cep) = map untimed (sends (fetchViaCEP w cep))"
  by (simp add: lookup_defs untimed_def Let_def split: sum.splits)

text \<open>
  C26. The reported error is that of the first failing call. Let \<open>x\<close> say, for each call
  of the BrasilAPI lookup, what that call returns (whether or not the lookup gets as far
  as making it), and let \<open>r\<close> be the response the lookup publishes. If building the request
  fails, \<open>r\<close> carries that error, whatever the later calls would return; otherwise, if the
  transport fails, \<open>r\<close> carries the transport error; otherwise, if the status is not 200,
  the status error; otherwise, if reading the body fails, the read error; otherwise, if
  the decoder rejects the body, the decode error; and only if all five succeed does \<open>r\<close>
  carry no error and the decoded address.
\<close>

theorem reported_error_is_first_failure:
  assumes "http_get w (brasil_url cep) = x" and "sends (fetchBrasilAPI w cep) = [r]"
  shows "(\<forall>m. new_request_err x = Some m \<longrightarrow> Error r = Some (RequestBuildError m)) \<and>
         (\<forall>m. new_request_err x = None \<and> do_err x = Some m \<longrightarrow>
            Error r = Some (TransportError m)) \<and>
         (new_request_err x = None \<and> do_err x = None \<and> status_code x \<noteq> 200 \<longrightarrow>
            Error r = Some (StatusCodeError (status_code x))) \<and>
         (\<forall>m. new_request_err x = None \<and> do_err x = None \<and> status_code x = 200
              \<and> read_err x = Some m \<longrightarrow>
            Error r = Some (BodyReadError m)) \<and>
         (\<forall>m. new_request_err x = None \<and> do_err x = None \<and> status_code x = 200
              \<and> read_err x = None \<and> unmarshal_BrasilAPICEP w (body x) = Inl m \<longrightarrow>
            Error r = Some (DecodeError m)) \<and>
         (\<forall>d. new_request_err x = None \<and> do_err x = None \<and> status_code x = 200
              \<and> read_err x = None \<and> unmarshal_BrasilAPICEP w (body x) = Inr d \<longrightarrow>
            Error r = None \<and> Data r = BrasilData d)"
  using assms
  by (auto simp: fetchBrasilAPI_def failed_def http_body_def StatusOK_def Let_def
      split: sum.splits)

theorem reported_error_is_first_failure_witness:
  "sends (fetchBrasilAPI
     (two_backends
        ((exchange_status 503 15)\<lparr>do_err := Some ''connection refused'',
           read_err := Some ''unexpected EOF''\<rparr>)
        (exchange_ok [] 80) (Inl ''invalid character'') (Inr sample_via)) ''01153000'')
     = [failed ''BrasilAPI'' (TransportError ''connection refused'') 15] \<and>
   Error (failed ''BrasilAPI'' (TransportError ''connection refused'') 15)
     = Some (TransportError ''connection refused'')"
proof -
  let ?x = "(exchange_status 503 15)\<lparr>do_err := Some ''connection refused'',
    read_err := Some ''unexpected EOF''\<rparr>"
  let ?w = "two_backends ?x (exchange_ok [] 80) (Inl ''invalid character'') (Inr sample_via)"
  have x: "http_get ?w (brasil_url ''01153000'') = ?x"
    by simp
  have s: "sends (fetchBrasilAPI ?w ''01153000'')
      = [failed ''BrasilAPI'' (TransportError ''connection refused'') 15]"
    by (simp add: fetchBrasilAPI_def http_body_def exchange_defs Let_def)
  from reported_error_is_first_failure [OF x s] s show ?thesis
    by (simp add: exchange_defs)
qed

text \<open>
  C31. Only status 200 is accepted. A response whose status is not exactly 200 makes the
  lookup publish \<open>StatusCodeError\<close> with that status, also when the status is another
  success code such as 204.
\<close>

theorem fetch_rejects_status_other_than_200:
  assumes "new_request_err (http_get w (via_url cep)) = None"
    and "do_err (http_get w (via_url cep)) = None"
    and "status_code (http_get w (via_url cep)) \<noteq> 200"
  shows "fetchViaCEP w cep =
     [Send (failed ''ViaCEP'' (StatusCodeError (status_code (http_get w (via_url cep))))
        (elapsed (http_get w (via_url cep)))), WgDone]"
  using assms by (simp add: fetchViaCEP_def http_body_def StatusOK_def Let_def)

theorem fetch_rejects_status_other_than_200_witness:
  "fetchViaCEP (two_backends (exchange_ok [] 7) (exchange_status 204 9)
       (Inr sample_brasil) (Inr sample_via)) ''01153000''
   = [Send (failed ''ViaCEP'' (StatusCodeError 204) 9), WgDone]"
  using fetch_rejects_status_other_than_200
    [of "two_backends (exchange_ok [] 7) (exchange_status 204 9) (Inr sample_brasil) (Inr sample_via)"
        "''01153000''"]
  by (simp add: exchange_defs)

end
