(* ===== verification/Cep_Sync.thy ===== *)
theory Cep_Sync
  imports Cep_Prelude
begin

text \<open>
  The synchronisation objects the programs share between goroutines, each as the value
  it holds and one function per operation the sources perform on it: the buffered
  result channel (\<open>make(chan Response, 2)\<close>, send and receive), the wait group
  (\<open>Add\<close>, \<open>Done\<close>, \<open>Wait\<close>) and the mutex of the timing table (\<open>Lock\<close>, \<open>Unlock\<close>).
  An operation either completes with the object's next value, cannot proceed yet
  (the goroutine stays blocked), or panics.
\<close>

section \<open>Outcomes of an operation\<close>

datatype panic = Negative_WaitGroup_Counter | Unlock_Of_Unlocked_Mutex

datatype 'a outcome = Blocked | Panic panic | Next 'a

fun enabled :: "'a outcome \<Rightarrow> bool" where
  "enabled (Next _) = True"
| "enabled _ = False"

fun panics :: "'a outcome \<Rightarrow> bool" where
  "panics (Panic _) = True"
| "panics _ = False"

lemma enabled_map_outcome [simp]: "enabled (map_outcome f r) = enabled r"
  by (cases r) simp_all

lemma panics_map_outcome [simp]: "panics (map_outcome f r) = panics r"
  by (cases r) simp_all

lemma map_outcome_eq_Next: "map_outcome f r = Next y \<longleftrightarrow> (\<exists>x. r = Next x \<and> y = f x)"
  by (cases r) auto

section \<open>The result channel\<close>

text \<open>
  A buffered channel is the queue of values sent and not yet received, oldest first.
  Both programs create the channel with capacity 2. A send blocks while the buffer is
  full, a receive while it is empty. The channel is never closed.
\<close>

type_synonym 'a chan = "'a list"

definition chan_cap :: nat where
  "chan_cap = 2"

definition chan_send :: "'a \<Rightarrow> 'a chan \<Rightarrow> 'a chan outcome" where
  "chan_send v buf = (if length buf < chan_cap then Next (buf @ [v]) else Blocked)"

definition chan_recv :: "'a chan \<Rightarrow> ('a \<times> 'a chan) outcome" where
  "chan_recv buf = (case buf of [] \<Rightarrow> Blocked | v # rest \<Rightarrow> Next (v, rest))"

lemma chan_send_enabled [simp]: "enabled (chan_send v buf) \<longleftrightarrow> length buf < chan_cap"
  by (simp add: chan_send_def)

lemma chan_send_never_panics [simp]: "\<not> panics (chan_send v buf)"
  by (simp add: chan_send_def)

lemma chan_send_Next: "chan_send v buf = Next buf' \<longleftrightarrow> length buf < chan_cap \<and> buf' = buf @ [v]"
  by (auto simp: chan_send_def)

lemma chan_recv_enabled [simp]: "enabled (chan_recv buf) \<longleftrightarrow> buf \<noteq> []"
  by (cases buf) (simp_all add: chan_recv_def)

lemma chan_recv_never_panics [simp]: "\<not> panics (chan_recv buf)"
  by (cases buf) (simp_all add: chan_recv_def)

lemma chan_recv_Next: "chan_recv buf = Next (v, rest) \<longleftrightarrow> buf = v # rest"
  by (cases buf) (auto simp: chan_recv_def)

lemma chan_recv_Cons [simp]: "chan_recv (v # rest) = Next (v, rest)"
  by (simp add: chan_recv_def)

lemma chan_recv_Nil [simp]: "chan_recv [] = Blocked"
  by (simp add: chan_recv_def)

lemma chan_send_within_cap: "chan_send v buf = Next buf' \<Longrightarrow> length buf' \<le> chan_cap"
  by (auto simp: chan_send_def split: if_splits)

text \<open>First in, first out: what is received first is what was sent first.\<close>

lemma chan_fifo:
  "chan_send a [] = Next b1 \<Longrightarrow> chan_send b b1 = Next b2 \<Longrightarrow> chan_recv b2 = Next (a, [b])"
  by (auto simp: chan_send_def split: if_splits)

section \<open>The wait group\<close>

text \<open>
  A \<open>sync.WaitGroup\<close> is its counter. \<open>Done\<close> on a zero counter panics (``negative
  WaitGroup counter''); \<open>Wait\<close> blocks until the counter is zero.
\<close>

definition wg_add :: "nat \<Rightarrow> nat \<Rightarrow> nat" where
  "wg_add delta n = n + delta"

definition wg_done :: "nat \<Rightarrow> nat outcome" where
  "wg_done n = (if n = 0 then Panic Negative_WaitGroup_Counter else Next (n - 1))"

definition wg_wait :: "nat \<Rightarrow> unit outcome" where
  "wg_wait n = (if n = 0 then Next () else Blocked)"

lemma wg_done_simps [simp]:
  "wg_done 0 = Panic Negative_WaitGroup_Counter" "wg_done (Suc n) = Next n"
  by (simp_all add: wg_done_def)

lemma wg_done_panics [simp]: "panics (wg_done n) \<longleftrightarrow> n = 0"
  by (simp add: wg_done_def)

lemma wg_done_Next: "wg_done n = Next m \<longleftrightarrow> n = Suc m"
  by (auto simp: wg_done_def)

lemma wg_wait_enabled [simp]: "enabled (wg_wait n) \<longleftrightarrow> n = 0"
  by (simp add: wg_wait_def)

lemma wg_wait_never_panics [simp]: "\<not> panics (wg_wait n)"
  by (simp add: wg_wait_def)

section \<open>The mutex\<close>

text \<open>
  A \<open>sync.Mutex\<close> is locked or not; it does not record its holder. \<open>Lock\<close> blocks while
  it is locked; \<open>Unlock\<close> of an unlocked mutex is a fatal error.
\<close>

definition mu_lock :: "bool \<Rightarrow> bool outcome" where
  "mu_lock locked = (if locked then Blocked else Next True)"

definition mu_unlock :: "bool \<Rightarrow> bool outcome" where
  "mu_unlock locked = (if locked then Next False else Panic Unlock_Of_Unlocked_Mutex)"

lemma mu_lock_simps [simp]: "mu_lock True = Blocked" "mu_lock False = Next True"
  by (simp_all add: mu_lock_def)

lemma mu_unlock_simps [simp]:
  "mu_unlock True = Next False" "mu_unlock False = Panic Unlock_Of_Unlocked_Mutex"
  by (simp_all add: mu_unlock_def)

lemma mu_lock_enabled [simp]: "enabled (mu_lock l) \<longleftrightarrow> \<not> l"
  by (simp add: mu_lock_def)

lemma mu_lock_never_panics [simp]: "\<not> panics (mu_lock l)"
  by (simp add: mu_lock_def)

lemma mu_unlock_panics [simp]: "panics (mu_unlock l) \<longleftrightarrow> \<not> l"
  by (simp add: mu_unlock_def)

lemma mu_lock_Next: "mu_lock l = Next l' \<longleftrightarrow> \<not> l \<and> l'"
  by (auto simp: mu_lock_def)

lemma mu_unlock_Next: "mu_unlock l = Next l' \<longleftrightarrow> l \<and> \<not> l'"
  by (auto simp: mu_unlock_def)

lemmas sync_defs [cep_defs] =
  chan_send_def chan_recv_def wg_add_def wg_done_def wg_wait_def mu_lock_def mu_unlock_def

end
