(* ===== verification/Cep_System.thy ===== *)
theory Cep_System
  imports Cep_Sync
begin

text \<open>
  Goroutines interleaved by the scheduler, independently of what they do: a system is
  a function from a configuration and a label (which goroutine moves, which timer
  fires) to the outcome of that step. This theory holds what both programs share about
  such systems: executing a schedule, the configurations a system reaches, and the
  proof rules the component theories instantiate: invariants of configurations and of
  schedules, a measure that bounds every schedule, and simulation of one system by
  another.
\<close>

section \<open>Schedules and reachability\<close>

type_synonym ('s, 'l) system = "'s \<Rightarrow> 'l \<Rightarrow> 's outcome"

fun exec :: "('s, 'l) system \<Rightarrow> 's \<Rightarrow> 'l list \<Rightarrow> 's outcome" where
  "exec sys s [] = Next s"
| "exec sys s (l # ls) =
     (case sys s l of Next s' \<Rightarrow> exec sys s' ls | Blocked \<Rightarrow> Blocked | Panic p \<Rightarrow> Panic p)"

inductive reach :: "('s, 'l) system \<Rightarrow> 's \<Rightarrow> 's \<Rightarrow> bool" for sys s0 where
  start: "reach sys s0 s0"
| step: "reach sys s0 s \<Longrightarrow> sys s l = Next s' \<Longrightarrow> reach sys s0 s'"

lemma exec_append:
  "exec sys s (ls @ ls') =
     (case exec sys s ls of Next s' \<Rightarrow> exec sys s' ls' | Blocked \<Rightarrow> Blocked | Panic p \<Rightarrow> Panic p)"
  by (induction ls arbitrary: s) (auto split: outcome.splits)

lemma exec_Cons_Next:
  "exec sys s (l # ls) = Next s' \<longleftrightarrow> (\<exists>s1. sys s l = Next s1 \<and> exec sys s1 ls = Next s')"
  by (cases "sys s l") simp_all

lemma reach_exec: "reach sys s0 s \<Longrightarrow> exec sys s ls = Next s' \<Longrightarrow> reach sys s0 s'"
  by (induction ls arbitrary: s) (auto split: outcome.splits intro: reach.step)

lemma reach_iff_exec: "reach sys s0 s \<longleftrightarrow> (\<exists>ls. exec sys s0 ls = Next s)"
proof
  assume "reach sys s0 s"
  then show "\<exists>ls. exec sys s0 ls = Next s"
  proof (induction rule: reach.induct)
    case start
    have "exec sys s0 [] = Next s0" by simp
    then show ?case by blast
  next
    case (step s l s')
    then obtain ls where "exec sys s0 ls = Next s" by blast
    with step.hyps(2) have "exec sys s0 (ls @ [l]) = Next s'"
      by (simp add: exec_append)
    then show ?case by blast
  qed
next
  assume "\<exists>ls. exec sys s0 ls = Next s"
  then show "reach sys s0 s"
    by (blast intro: reach_exec reach.start)
qed

lemma reach_trans:
  assumes "reach sys s0 s1" and "reach sys s1 s2"
  shows "reach sys s0 s2"
proof -
  from assms(2) obtain ls where "exec sys s1 ls = Next s2"
    unfolding reach_iff_exec by blast
  with assms(1) show ?thesis by (rule reach_exec)
qed

section \<open>Invariants\<close>

text \<open>
  A predicate that holds at the start and that every completed step preserves holds in
  every reachable configuration and along every schedule.
\<close>

lemma reach_invariant [consumes 1, case_names start step]:
  assumes "reach sys s0 s" and "I s0" and "\<And>s l s'. I s \<Longrightarrow> sys s l = Next s' \<Longrightarrow> I s'"
  shows "I s"
  using assms(1) by (induction rule: reach.induct) (auto intro: assms(2,3))

lemma exec_invariant:
  assumes "exec sys s ls = Next s'" and "I s" and "\<And>s l s'. I s \<Longrightarrow> sys s l = Next s' \<Longrightarrow> I s'"
  shows "I s'"
proof -
  from assms(1) have "reach sys s s'" by (rule reach_exec [OF reach.start])
  then show ?thesis using assms(2,3) by (rule reach_invariant)
qed

text \<open>
  A property of a configuration together with the schedule that led to it: it holds
  along every schedule if it holds of the empty schedule at the start and every
  completed step extends it. This is the rule for claims about what must have happened
  before a configuration is reached.
\<close>

lemma exec_history_invariant [consumes 1, case_names start step]:
  assumes "exec sys s0 ls = Next s" and "P [] s0"
    and "\<And>ls s l s'. exec sys s0 ls = Next s \<Longrightarrow> P ls s \<Longrightarrow> sys s l = Next s' \<Longrightarrow> P (ls @ [l]) s'"
  shows "P ls s"
  using assms(1)
proof (induction ls arbitrary: s rule: rev_induct)
  case Nil
  with assms(2) show ?case by simp
next
  case (snoc l ls)
  then obtain s1 where s1: "exec sys s0 ls = Next s1" "sys s1 l = Next s"
    by (cases "exec sys s0 ls"; cases "sys (case exec sys s0 ls of Next x \<Rightarrow> x) l")
      (auto simp: exec_append)
  from assms(3) [OF s1(1) snoc.IH [OF s1(1)] s1(2)] show ?case .
qed

section \<open>Termination by a measure\<close>

text \<open>
  If every completed step decreases a natural-number measure, a schedule that can be
  executed is no longer than the measure of its first configuration.
\<close>

lemma exec_measure:
  assumes dec: "\<And>s l s'. sys s l = Next s' \<Longrightarrow> f s' < f s"
  shows "exec sys s ls = Next s' \<Longrightarrow> length ls + f s' \<le> f s"
proof (induction ls arbitrary: s)
  case Nil
  then show ?case by simp
next
  case (Cons l ls)
  then obtain s1 where s1: "sys s l = Next s1" "exec sys s1 ls = Next s'"
    by (auto split: outcome.splits)
  from dec [OF s1(1)] Cons.IH [OF s1(2)] show ?case by simp
qed

lemma exec_measure_inv:
  assumes pres: "\<And>s l s'. I s \<Longrightarrow> sys s l = Next s' \<Longrightarrow> I s'"
    and dec: "\<And>s l s'. I s \<Longrightarrow> sys s l = Next s' \<Longrightarrow> f s' < f s"
  shows "I s \<Longrightarrow> exec sys s ls = Next s' \<Longrightarrow> length ls + f s' \<le> f s"
proof (induction ls arbitrary: s)
  case Nil
  then show ?case by simp
next
  case (Cons l ls)
  then obtain s1 where s1: "sys s l = Next s1" "exec sys s1 ls = Next s'"
    by (auto split: outcome.splits)
  from dec [OF Cons.prems(1) s1(1)] Cons.IH [OF pres [OF Cons.prems(1) s1(1)] s1(2)]
  show ?case by simp
qed

section \<open>Simulation\<close>

text \<open>
  \<open>simulates R sysC sysA\<close>: every completed step of \<open>sysC\<close> from a configuration related
  to one of \<open>sysA\<close> is matched by a step of \<open>sysA\<close>, or by none (the step is invisible
  to \<open>sysA\<close>), and the relation holds again. Then every configuration \<open>sysC\<close> reaches is
  related to one \<open>sysA\<close> reaches.
\<close>

definition simulates :: "('a \<Rightarrow> 'c \<Rightarrow> bool) \<Rightarrow> ('c, 'l) system \<Rightarrow> ('a, 'm) system \<Rightarrow> bool" where
  "simulates R sysC sysA \<longleftrightarrow>
     (\<forall>a c l c'. R a c \<and> sysC c l = Next c' \<longrightarrow>
        R a c' \<or> (\<exists>m a'. sysA a m = Next a' \<and> R a' c'))"

lemma simulatesI [intro?]:
  assumes "\<And>a c l c'. R a c \<Longrightarrow> sysC c l = Next c' \<Longrightarrow>
    R a c' \<or> (\<exists>m a'. sysA a m = Next a' \<and> R a' c')"
  shows "simulates R sysC sysA"
  using assms unfolding simulates_def by blast

lemma simulates_reach:
  assumes sim: "simulates R sysC sysA" and init: "R a0 c0" and "reach sysC c0 c"
  shows "\<exists>a. reach sysA a0 a \<and> R a c"
  using assms(3)
proof (induction rule: reach.induct)
  case start
  from init show ?case by (blast intro: reach.start)
next
  case (step c l c')
  then obtain a where a: "reach sysA a0 a" "R a c" by blast
  from sim a(2) step.hyps(2)
  have "R a c' \<or> (\<exists>m a'. sysA a m = Next a' \<and> R a' c')"
    unfolding simulates_def by blast
  with a(1) show ?case by (blast intro: reach.step)
qed

text \<open>
  A simulation restricted to configurations that satisfy an invariant of the simulated
  system.
\<close>

lemma simulates_reach_inv:
  assumes sim: "simulates (\<lambda>a c. R a c \<and> I c) sysC sysA" and "R a0 c0" and "I c0"
    and "reach sysC c0 c"
  shows "\<exists>a. reach sysA a0 a \<and> R a c"
  using simulates_reach [OF sim _ assms(4), of a0] assms(2,3) by blast

end
