(* ===== verification/Cep_Timing.thy ===== *)
theory Cep_Timing
  imports Cep_Data
begin

text \<open>
  The computation of the detached comparison routine of \<open>src/main.go\<close> (the body of the
  \<open>go func()\<close> after the lock is taken): the loop that finds the fastest and the slowest
  entry of \<open>timingResults\<close>, and the lines printed from it. Go iterates over a map in an
  order the runtime chooses afresh for every \<open>range\<close>; the order is therefore a parameter
  of the model (the list of entries as the loop meets them), and the theorems say what
  does and what does not depend on it.
\<close>

section \<open>The loop over the timing table\<close>

text \<open>
  The four variables the loop updates, with the zero values of their declarations; the
  loop body for one entry; the loop over an iteration order.
\<close>

record extremes =
  fastest :: api_name
  fastestTime :: duration
  slowest :: api_name
  slowestTime :: duration

definition extremes0 :: extremes where
  "extremes0 = \<lparr>fastest = [], fastestTime = 0, slowest = [], slowestTime = 0\<rparr>"

definition visit :: "api_name \<times> duration \<Rightarrow> extremes \<Rightarrow> extremes" where
  "visit e x =
     (let api = fst e; duration = snd e;
          x1 = (if fastest x = [] \<or> duration < fastestTime x
                then x\<lparr>fastest := api, fastestTime := duration\<rparr> else x);
          x2 = (if slowest x1 = [] \<or> duration > slowestTime x1
                then x1\<lparr>slowest := api, slowestTime := duration\<rparr> else x1)
      in x2)"

definition find_extremes :: "(api_name \<times> duration) list \<Rightarrow> extremes" where
  "find_extremes it = fold visit it extremes0"

definition report ::
  "(api_name \<times> duration) list \<Rightarrow> (api_name \<times> duration) list \<Rightarrow> (api_name \<times> duration) list
     \<Rightarrow> out_line list" where
  "report timingResults it1 it2 =
     (if length timingResults > 1 then
        (let x = find_extremes it1
         in [Compare_Fastest (fastest x) (fastestTime x),
             Compare_Slowest (slowest x) (slowestTime x),
             Compare_Diff (slowestTime x) (fastestTime x)]
            @ map (\<lambda>e. Compare_Entry (fst e) (snd e)) it2)
      else [Compare_Unavailable])"

lemmas timing_defs [cep_defs] = report_def find_extremes_def visit_def extremes0_def

section \<open>What the loop computes\<close>

text \<open>
  The loop uses the empty name as ``not yet set''. Once both names are set (\<open>seeded\<close>) the
  two times are a running minimum and maximum. The keys the program stores are never
  empty (\<open>named\<close>).
\<close>

definition seeded :: "extremes \<Rightarrow> bool" where
  "seeded x \<longleftrightarrow> fastest x \<noteq> [] \<and> slowest x \<noteq> []"

definition named :: "(api_name \<times> duration) list \<Rightarrow> bool" where
  "named es \<longleftrightarrow> list_all (\<lambda>e. fst e \<noteq> []) es"

lemma visit_seeded: "fst e \<noteq> [] \<Longrightarrow> seeded (visit e x)"
  by (simp add: visit_def seeded_def Let_def)

lemma visit_unseeded:
  "fastest x = [] \<Longrightarrow> slowest x = [] \<Longrightarrow>
   visit e x = x\<lparr>fastest := fst e, fastestTime := snd e, slowest := fst e, slowestTime := snd e\<rparr>"
  by (simp add: visit_def Let_def)

lemma visit_times:
  "seeded x \<Longrightarrow> fastestTime (visit e x) = min (snd e) (fastestTime x) \<and>
                 slowestTime (visit e x) = max (snd e) (slowestTime x)"
  by (auto simp: visit_def seeded_def Let_def)

lemma fold_visit_times:
  "seeded x \<Longrightarrow> named es \<Longrightarrow>
   fastestTime (fold visit es x) = Min (insert (fastestTime x) (snd ` set es)) \<and>
   slowestTime (fold visit es x) = Max (insert (slowestTime x) (snd ` set es))"
proof (induction es arbitrary: x)
  case Nil
  then show ?case by simp
next
  case (Cons e es)
  then have s: "seeded (visit e x)" and n: "named es"
    by (simp_all add: named_def visit_seeded)
  have "insert (min (snd e) (fastestTime x)) (snd ` set es) \<noteq> {}" by simp
  show ?case
    using Cons.IH [OF s n] visit_times [OF Cons.prems(1), of e]
    by (cases "es = []") (simp_all add: ac_simps)
qed

lemma fold_visit_members:
  "(fastest x, fastestTime x) \<in> A \<Longrightarrow> (slowest x, slowestTime x) \<in> A \<Longrightarrow> set es \<subseteq> A \<Longrightarrow>
   (fastest (fold visit es x), fastestTime (fold visit es x)) \<in> A \<and>
   (slowest (fold visit es x), slowestTime (fold visit es x)) \<in> A"
  by (induction es arbitrary: x) (auto simp: visit_def Let_def)

lemma find_extremes_Cons:
  "find_extremes (e # es) =
     fold visit es \<lparr>fastest = fst e, fastestTime = snd e, slowest = fst e, slowestTime = snd e\<rparr>"
  by (simp add: find_extremes_def extremes0_def visit_unseeded)

lemma find_extremes_min_max:
  assumes "it \<noteq> []" and "named it"
  shows "fastestTime (find_extremes it) = Min (snd ` set it) \<and>
         slowestTime (find_extremes it) = Max (snd ` set it)"
proof -
  from assms obtain e es where it: "it = e # es" and e: "fst e \<noteq> []" and es: "named es"
    by (cases it) (auto simp: named_def)
  let ?x = "\<lparr>fastest = fst e, fastestTime = snd e, slowest = fst e, slowestTime = snd e\<rparr>"
  from e have "seeded ?x" by (simp add: seeded_def)
  from fold_visit_times [OF this es] show ?thesis
    by (simp add: it find_extremes_Cons)
qed

lemma find_extremes_members:
  assumes "it \<noteq> []"
  shows "(fastest (find_extremes it), fastestTime (find_extremes it)) \<in> set it \<and>
         (slowest (find_extremes it), slowestTime (find_extremes it)) \<in> set it"
proof -
  from assms obtain e es where it: "it = e # es" by (cases it) auto
  show ?thesis
    unfolding it find_extremes_Cons
    by (rule fold_visit_members) auto
qed

lemma report_compare_lines [simp]: "list_all compare_line (report tr it1 it2)"
  by (auto simp: report_def Let_def list_all_iff)

lemma length_report: "mset it2 = mset tr \<Longrightarrow> length (report tr it1 it2) \<le> 3 + length tr"
  by (auto simp: report_def Let_def dest: mset_eq_length)

lemma named_mset: "mset it = mset tbl \<Longrightarrow> named tbl \<Longrightarrow> named it"
  by (metis named_def list_all_iff mset_eq_setD)

lemma unique_duration:
  "distinct (map snd es) \<Longrightarrow> (a, d) \<in> set es \<Longrightarrow> (b, d) \<in> set es \<Longrightarrow> a = b"
  by (metis distinct_map inj_onD prod.inject snd_conv)

section \<open>Properties of the comparison\<close>

text \<open>
  C20. The comparison prints the minimum and the maximum. For a table with more than one
  entry and non-empty names, whatever order the runtime iterates in, the first three
  lines name an entry with the least duration as fastest, an entry with the greatest
  duration as slowest, and these two durations as the terms of the difference.
\<close>

theorem report_extremes:
  assumes "mset it1 = mset tbl" and "named tbl" and "length tbl > 1"
  shows "\<exists>a b. take 3 (report tbl it1 it2) =
            [Compare_Fastest a (Min (snd ` set tbl)), Compare_Slowest b (Max (snd ` set tbl)),
             Compare_Diff (Max (snd ` set tbl)) (Min (snd ` set tbl))]
          \<and> (a, Min (snd ` set tbl)) \<in> set tbl \<and> (b, Max (snd ` set tbl)) \<in> set tbl"
proof -
  from assms have ne: "it1 \<noteq> []" and n: "named it1" and s: "set it1 = set tbl"
    by (auto intro: named_mset dest: mset_eq_setD)
  from find_extremes_min_max [OF ne n] find_extremes_members [OF ne] assms(3) s
  show ?thesis by (simp add: report_def Let_def)
qed

theorem report_extremes_witness:
  "\<exists>a b. take 3 (report [(''BrasilAPI'', 120), (''ViaCEP'', 80)]
                    [(''ViaCEP'', 80), (''BrasilAPI'', 120)] [(''BrasilAPI'', 120), (''ViaCEP'', 80)])
     = [Compare_Fastest a 80, Compare_Slowest b 120, Compare_Diff 120 80]"
  using report_extremes [of "[(''ViaCEP'', 80), (''BrasilAPI'', 120)]"
      "[(''BrasilAPI'', 120), (''ViaCEP'', 80)]" "[(''BrasilAPI'', 120), (''ViaCEP'', 80)]"]
  by (auto simp: named_def)

text \<open>
  C28. With distinct durations the comparison does not depend on the iteration order. If no
  two entries of the table have the same duration, two runs of the first loop over the
  same table in different orders find the same names and times.
\<close>

theorem find_extremes_order_independent:
  assumes "mset it = mset tbl" and "mset it' = mset tbl" and "named tbl"
    and "distinct (map snd tbl)" and "tbl \<noteq> []"
  shows "find_extremes it = find_extremes it'"
proof -
  from assms have ne: "it \<noteq> []" "it' \<noteq> []" and n: "named it" "named it'"
    and s: "set it = set tbl" "set it' = set tbl"
    by (auto intro: named_mset dest: mset_eq_setD)
  have t: "fastestTime (find_extremes it) = fastestTime (find_extremes it')"
    "slowestTime (find_extremes it) = slowestTime (find_extremes it')"
    using ne n s by (simp_all add: find_extremes_min_max)
  from find_extremes_members [OF ne(1)] find_extremes_members [OF ne(2)] s t
  have "fastest (find_extremes it) = fastest (find_extremes it')"
    "slowest (find_extremes it) = slowest (find_extremes it')"
    by (auto intro: unique_duration [OF assms(4)])
  with t show ?thesis by simp
qed

theorem find_extremes_order_independent_witness:
  "find_extremes [(''BrasilAPI'', 120), (''ViaCEP'', 80)] =
   find_extremes [(''ViaCEP'', 80), (''BrasilAPI'', 120)]"
  using find_extremes_order_independent [of "[(''BrasilAPI'', 120), (''ViaCEP'', 80)]"
      "[(''BrasilAPI'', 120), (''ViaCEP'', 80)]" "[(''ViaCEP'', 80), (''BrasilAPI'', 120)]"]
  by (simp add: named_def)

text \<open>
  C29. On a tie one backend is printed as both fastest and slowest. If the two entries have
  the same duration, the comparison names the entry met first in both lines, so which
  backend is printed depends on the iteration order of the map.
\<close>

theorem tie_names_first_iterated:
  assumes "a \<noteq> []" and "length tbl > 1"
  shows "take 2 (report tbl [(a, d), (b, d)] it2) = [Compare_Fastest a d, Compare_Slowest a d]"
  using assms
  by (simp add: report_def find_extremes_def extremes0_def visit_def Let_def)

theorem tie_names_first_iterated_witness:
  "take 2 (report [(''BrasilAPI'', 90), (''ViaCEP'', 90)] [(''ViaCEP'', 90), (''BrasilAPI'', 90)] [])
     = [Compare_Fastest ''ViaCEP'' 90, Compare_Slowest ''ViaCEP'' 90]"
  using tie_names_first_iterated [of "''ViaCEP''" "[(''BrasilAPI'', 90), (''ViaCEP'', 90)]" 90
      "''BrasilAPI''" "[]"]
  by simp

end
