(* ===== verification/Cep_Race.thy ===== *)
theory Cep_Race
  imports Cep_Lookup Cep_System Cep_Timing "HOL-Library.Sublist"
begin

text \<open>
  The race of \<open>src/main.go\<close> as a transition system: the goroutine of \<open>main\<close> (the
  coordinator), the two lookup tasks and the detached comparison routine, interleaved
  one operation at a time over the objects they share. A step is named by a label: which
  goroutine moves, or which event of the environment (a timer) happens. \<open>step\<close> is the
  whole transition function, a system in the sense of \<open>Cep_System\<close>; \<open>run\<close> executes a
  schedule; \<open>reachable\<close> is the set of configurations some schedule reaches.
\<close>

section \<open>Configurations\<close>

text \<open>
  Where \<open>main\<close> stands: at the first \<open>select\<close>, at the second \<open>select\<close> (draining the
  channel), in the final \<open>time.Sleep\<close>, or returned. When \<open>main\<close> has returned the process
  has ended and no goroutine moves any more.
\<close>

datatype main_pc = M_Select | M_Drain | M_Sleep | M_Exit

text \<open>
  Where the comparison routine stands: not started, in \<open>wg.Wait()\<close>, before
  \<open>timingMutex.Lock()\<close>, before the comparison itself, printing its result (with the
  lines it has still to print; with none left it is before the deferred \<open>Unlock\<close>),
  finished.
\<close>

datatype agg_pc = A_Idle | A_Wait | A_Lock | A_Report | A_Print "out_line list" | A_Done

text \<open>
  The variables of \<open>main\<close> that goroutines share, the remaining program of each task, the
  two program counters, the state of the two timers (\<open>ctxDone\<close>: the context is done, by
  its deadline or by \<open>cancel\<close>; \<open>timer\<close>: the channel of \<open>time.After\<close> has fired) and the
  lines printed so far.
\<close>

record config =
  mainPC :: main_pc
  brasilTask :: "Response action list"
  viaTask :: "Response action list"
  aggPC :: agg_pc
  resultChan :: "Response chan"
  wg :: nat
  timingMutex :: bool
  timingResults :: "(api_name \<times> duration) list"
  ctxDone :: bool
  timer :: bool
  console :: "out_line list"

section \<open>Start of main\<close>

text \<open>
  \<open>init\<close> is the configuration after \<open>main\<close> has created the context, the channel, the
  wait group (\<open>wg.Add(2)\<close>) and the timing table and has started both tasks.
  \<open>main_start\<close> is \<open>main\<close> from its first line: without an argument it prints the usage
  line and returns before anything is created.
\<close>

definition init :: "world \<Rightarrow> string \<Rightarrow> config" where
  "init w cep =
     \<lparr>mainPC = M_Select, brasilTask = fetchBrasilAPI w cep, viaTask = fetchViaCEP w cep,
      aggPC = A_Idle, resultChan = [], wg = wg_add 2 0, timingMutex = False,
      timingResults = [], ctxDone = False, timer = False, console = [Searching cep]\<rparr>"

definition usage_exit :: config where
  "usage_exit =
     \<lparr>mainPC = M_Exit, brasilTask = [], viaTask = [], aggPC = A_Idle, resultChan = [],
      wg = 0, timingMutex = False, timingResults = [], ctxDone = False, timer = False,
      console = [Usage]\<rparr>"

definition main_start :: "world \<Rightarrow> string list \<Rightarrow> config" where
  "main_start w args = (if length args < 2 then usage_exit else init w (args ! 1))"

section \<open>Steps of a lookup task\<close>

definition task_of :: "task_id \<Rightarrow> config \<Rightarrow> Response action list" where
  "task_of t s = (case t of Brasil \<Rightarrow> brasilTask s | Via \<Rightarrow> viaTask s)"

definition set_task :: "task_id \<Rightarrow> Response action list \<Rightarrow> config \<Rightarrow> config" where
  "set_task t p s = (case t of Brasil \<Rightarrow> s\<lparr>brasilTask := p\<rparr> | Via \<Rightarrow> s\<lparr>viaTask := p\<rparr>)"

text \<open>One operation of a task on the shared objects.\<close>

definition perform :: "Response action \<Rightarrow> config \<Rightarrow> config outcome" where
  "perform a s =
     (case a of
        Lock \<Rightarrow> map_outcome (\<lambda>l. s\<lparr>timingMutex := l\<rparr>) (mu_lock (timingMutex s))
      | Store k d \<Rightarrow> Next (s\<lparr>timingResults := AList.update k d (timingResults s)\<rparr>)
      | Unlock \<Rightarrow> map_outcome (\<lambda>l. s\<lparr>timingMutex := l\<rparr>) (mu_unlock (timingMutex s))
      | Send r \<Rightarrow> map_outcome (\<lambda>b. s\<lparr>resultChan := b\<rparr>) (chan_send r (resultChan s))
      | WgDone \<Rightarrow> map_outcome (\<lambda>n. s\<lparr>wg := n\<rparr>) (wg_done (wg s)))"

text \<open>A task performs the first operation of its remaining program, if it can.\<close>

definition task_step :: "task_id \<Rightarrow> config \<Rightarrow> config outcome" where
  "task_step t s =
     (case task_of t s of
        [] \<Rightarrow> Blocked
      | a # rest \<Rightarrow> map_outcome (set_task t rest) (perform a s))"

section \<open>Steps of the coordinator\<close>

text \<open>
  The first \<open>select\<close>, case \<open>result := <-resultChan\<close>: an error is printed and \<open>main\<close>
  returns (its deferred \<open>cancel()\<close> ends the context); a success is printed with its
  address, the comparison routine is started and \<open>main\<close> goes on to the second \<open>select\<close>.
\<close>

definition main_recv :: "config \<Rightarrow> config outcome" where
  "main_recv s =
     (if mainPC s \<noteq> M_Select then Blocked
      else case chan_recv (resultChan s) of
             Blocked \<Rightarrow> Blocked
           | Panic p \<Rightarrow> Panic p
           | Next (result, rest) \<Rightarrow>
               (case Error result of
                  Some err \<Rightarrow>
                    Next (s\<lparr>resultChan := rest,
                            console := console s @ [Api_Error (APIName result) err],
                            mainPC := M_Exit, ctxDone := True\<rparr>)
                | None \<Rightarrow>
                    Next (s\<lparr>resultChan := rest,
                            console := console s
                              @ [Fastest_Response (APIName result) (Some (Duration result))]
                              @ print_address (Data result),
                            aggPC := A_Wait, mainPC := M_Drain\<rparr>)))"

text \<open>The first \<open>select\<close>, case \<open><-ctx.Done()\<close>.\<close>

definition main_ctx_done :: "config \<Rightarrow> config outcome" where
  "main_ctx_done s =
     (if mainPC s \<noteq> M_Select \<or> \<not> ctxDone s then Blocked
      else Next (s\<lparr>console := console s @ [Timeout], mainPC := M_Exit\<rparr>))"

text \<open>The second \<open>select\<close>: discard one more response, or give up when the timer fires.\<close>

definition main_drain :: "config \<Rightarrow> config outcome" where
  "main_drain s =
     (if mainPC s \<noteq> M_Drain then Blocked
      else map_outcome (\<lambda>(_, rest). s\<lparr>resultChan := rest, mainPC := M_Sleep\<rparr>)
             (chan_recv (resultChan s)))"

definition main_drain_timeout :: "config \<Rightarrow> config outcome" where
  "main_drain_timeout s =
     (if mainPC s \<noteq> M_Drain \<or> \<not> timer s then Blocked else Next (s\<lparr>mainPC := M_Sleep\<rparr>))"

text \<open>\<open>time.Sleep\<close> returns and \<open>main\<close> returns after it.\<close>

definition main_wake :: "config \<Rightarrow> config outcome" where
  "main_wake s =
     (if mainPC s \<noteq> M_Sleep then Blocked else Next (s\<lparr>mainPC := M_Exit, ctxDone := True\<rparr>))"

section \<open>Timers\<close>

text \<open>
  The deadline of \<open>context.WithTimeout\<close> may expire at any moment while the context is
  not done; the timer of \<open>time.After\<close> exists while \<open>main\<close> waits in the second \<open>select\<close>.
  The model does not measure time: it allows every order of these events.
\<close>

definition deadline :: "config \<Rightarrow> config outcome" where
  "deadline s = (if ctxDone s then Blocked else Next (s\<lparr>ctxDone := True\<rparr>))"

definition timer_fires :: "config \<Rightarrow> config outcome" where
  "timer_fires s =
     (if mainPC s \<noteq> M_Drain \<or> timer s then Blocked else Next (s\<lparr>timer := True\<rparr>))"

section \<open>Steps of the comparison routine\<close>

definition agg_wait :: "config \<Rightarrow> config outcome" where
  "agg_wait s =
     (if aggPC s \<noteq> A_Wait then Blocked
      else map_outcome (\<lambda>_. s\<lparr>console := console s @ [Compare_Header], aggPC := A_Lock\<rparr>)
             (wg_wait (wg s)))"

definition agg_lock :: "config \<Rightarrow> config outcome" where
  "agg_lock s =
     (if aggPC s \<noteq> A_Lock then Blocked
      else map_outcome (\<lambda>l. s\<lparr>timingMutex := l, aggPC := A_Report\<rparr>) (mu_lock (timingMutex s)))"

text \<open>
  The comparison, under the lock. \<open>it1\<close> and \<open>it2\<close> are the orders in which the runtime
  iterates over the table in the two \<open>range\<close> loops: any two permutations of its entries.
  The routine reads the table while no other goroutine can write it, so what it will
  print is determined when it starts; each \<open>Printf\<close> is then a step of its own
  (\<open>agg_print\<close>), because the process may end between two of them.
\<close>

definition agg_report ::
  "(api_name \<times> duration) list \<Rightarrow> (api_name \<times> duration) list \<Rightarrow> config \<Rightarrow> config outcome" where
  "agg_report it1 it2 s =
     (if aggPC s \<noteq> A_Report \<or> mset it1 \<noteq> mset (timingResults s)
         \<or> mset it2 \<noteq> mset (timingResults s)
      then Blocked
      else Next (s\<lparr>aggPC := A_Print (report (timingResults s) it1 it2)\<rparr>))"

definition agg_print :: "config \<Rightarrow> config outcome" where
  "agg_print s =
     (case aggPC s of
        A_Print (l # ls) \<Rightarrow> Next (s\<lparr>console := console s @ [l], aggPC := A_Print ls\<rparr>)
      | _ \<Rightarrow> Blocked)"

definition agg_unlock :: "config \<Rightarrow> config outcome" where
  "agg_unlock s =
     (if aggPC s \<noteq> A_Print [] then Blocked
      else map_outcome (\<lambda>l. s\<lparr>timingMutex := l, aggPC := A_Done\<rparr>)
             (mu_unlock (timingMutex s)))"

section \<open>The transition function\<close>

datatype label =
    Task task_id
  | Deadline
  | Recv
  | Ctx_Done
  | Timer
  | Drain
  | Drain_Timeout
  | Wake
  | Agg_Wait
  | Agg_Lock
  | Agg_Report "(api_name \<times> duration) list" "(api_name \<times> duration) list"
  | Agg_Print
  | Agg_Unlock

definition step :: "config \<Rightarrow> label \<Rightarrow> config outcome" where
  "step s l =
     (if mainPC s = M_Exit then Blocked
      else case l of
             Task t \<Rightarrow> task_step t s
           | Deadline \<Rightarrow> deadline s
           | Recv \<Rightarrow> main_recv s
           | Ctx_Done \<Rightarrow> main_ctx_done s
           | Timer \<Rightarrow> timer_fires s
           | Drain \<Rightarrow> main_drain s
           | Drain_Timeout \<Rightarrow> main_drain_timeout s
           | Wake \<Rightarrow> main_wake s
           | Agg_Wait \<Rightarrow> agg_wait s
           | Agg_Lock \<Rightarrow> agg_lock s
           | Agg_Report it1 it2 \<Rightarrow> agg_report it1 it2 s
           | Agg_Print \<Rightarrow> agg_print s
           | Agg_Unlock \<Rightarrow> agg_unlock s)"

definition run :: "config \<Rightarrow> label list \<Rightarrow> config outcome" where
  "run = exec step"

definition reachable :: "world \<Rightarrow> string \<Rightarrow> config \<Rightarrow> bool" where
  "reachable w cep = reach step (init w cep)"

lemma run_simps [simp]:
  "run s [] = Next s"
  "run s (l # ls) =
     (case step s l of Next s' \<Rightarrow> run s' ls | Blocked \<Rightarrow> Blocked | Panic p \<Rightarrow> Panic p)"
  unfolding run_def by simp_all

lemma reachable_start [simp, intro]: "reachable w cep (init w cep)"
  by (simp add: reachable_def reach.start)

lemma reachable_step [intro]:
  "reachable w cep s \<Longrightarrow> step s l = Next s' \<Longrightarrow> reachable w cep s'"
  unfolding reachable_def by (rule reach.step)

lemmas main_defs = main_recv_def main_ctx_done_def main_drain_def main_drain_timeout_def
  main_wake_def
lemmas agg_defs = agg_wait_def agg_lock_def agg_report_def agg_print_def agg_unlock_def
lemmas timer_defs = deadline_def timer_fires_def
lemmas task_defs = task_step_def perform_def task_of_def set_task_def
lemmas race_defs [cep_defs] = main_defs agg_defs timer_defs task_defs

section \<open>Steps, case by case\<close>

lemma task_step_cases [consumes 1, case_names Lock Store Unlock Send WgDone]:
  assumes "task_step t s = Next s'"
  obtains rest where "task_of t s = Lock # rest" "\<not> timingMutex s"
      "s' = set_task t rest (s\<lparr>timingMutex := True\<rparr>)"
  | k d rest where "task_of t s = Store k d # rest"
      "s' = set_task t rest (s\<lparr>timingResults := AList.update k d (timingResults s)\<rparr>)"
  | rest where "task_of t s = Unlock # rest" "timingMutex s"
      "s' = set_task t rest (s\<lparr>timingMutex := False\<rparr>)"
  | r rest where "task_of t s = Send r # rest" "length (resultChan s) < chan_cap"
      "s' = set_task t rest (s\<lparr>resultChan := resultChan s @ [r]\<rparr>)"
  | rest where "task_of t s = WgDone # rest" "wg s \<noteq> 0"
      "s' = set_task t rest (s\<lparr>wg := wg s - 1\<rparr>)"
proof (cases "task_of t s")
  case Nil
  with assms show ?thesis by (simp add: task_step_def)
next
  case (Cons a rest)
  with assms that show ?thesis
    by (cases a)
      (auto simp: task_step_def perform_def map_outcome_eq_Next mu_lock_Next mu_unlock_Next
        chan_send_Next wg_done_Next)
qed

lemma step_cases [consumes 1, case_names Task Deadline Recv Ctx_Done Timer Drain Drain_Timeout
    Wake Agg_Wait Agg_Lock Agg_Report Agg_Print Agg_Unlock]:
  assumes "step s l = Next s'"
  obtains t where "l = Task t" "task_step t s = Next s'"
  | "l = Deadline" "deadline s = Next s'"
  | "l = Recv" "main_recv s = Next s'"
  | "l = Ctx_Done" "main_ctx_done s = Next s'"
  | "l = Timer" "timer_fires s = Next s'"
  | "l = Drain" "main_drain s = Next s'"
  | "l = Drain_Timeout" "main_drain_timeout s = Next s'"
  | "l = Wake" "main_wake s = Next s'"
  | "l = Agg_Wait" "agg_wait s = Next s'"
  | "l = Agg_Lock" "agg_lock s = Next s'"
  | it1 it2 where "l = Agg_Report it1 it2" "agg_report it1 it2 s = Next s'"
  | "l = Agg_Print" "agg_print s = Next s'"
  | "l = Agg_Unlock" "agg_unlock s = Next s'"
  using assms by (cases l) (auto simp: step_def split: if_splits)

lemma task_step_frame:
  assumes "task_step t s = Next s'"
  shows "mainPC s' = mainPC s" "console s' = console s" "ctxDone s' = ctxDone s"
    "aggPC s' = aggPC s"
  using assms by (cases rule: task_step_cases; cases t; simp add: task_of_def set_task_def)+

section \<open>The invariant\<close>

definition agg_holds :: "agg_pc \<Rightarrow> bool" where
  "agg_holds pc \<longleftrightarrow> pc = A_Report \<or> (\<exists>ls. pc = A_Print ls)"

definition agg_past_wait :: "agg_pc \<Rightarrow> bool" where
  "agg_past_wait pc \<longleftrightarrow> pc \<noteq> A_Idle \<and> pc \<noteq> A_Wait"

definition inv_tasks :: "Response action list \<Rightarrow> Response action list \<Rightarrow> config \<Rightarrow> bool" where
  "inv_tasks pB pV s \<longleftrightarrow> suffix (brasilTask s) pB \<and> suffix (viaTask s) pV"

definition inv_wg :: "config \<Rightarrow> bool" where
  "inv_wg s \<longleftrightarrow> wg s = running (brasilTask s) + running (viaTask s)"

definition inv_chan :: "config \<Rightarrow> bool" where
  "inv_chan s \<longleftrightarrow>
     length (resultChan s) + length (sends (brasilTask s)) + length (sends (viaTask s))
       \<le> chan_cap"

definition inv_mutex :: "config \<Rightarrow> bool" where
  "inv_mutex s \<longleftrightarrow>
     (timingMutex s \<longleftrightarrow> holds (brasilTask s) \<or> holds (viaTask s) \<or> agg_holds (aggPC s)) \<and>
     \<not> (holds (brasilTask s) \<and> holds (viaTask s)) \<and>
     \<not> (agg_holds (aggPC s) \<and> (holds (brasilTask s) \<or> holds (viaTask s)))"

definition inv_agg :: "config \<Rightarrow> bool" where
  "inv_agg s \<longleftrightarrow>
     (agg_past_wait (aggPC s) \<longrightarrow> brasilTask s = [] \<and> viaTask s = []) \<and>
     (aggPC s \<noteq> A_Idle \<longrightarrow> mainPC s \<noteq> M_Select) \<and>
     (\<forall>ls. aggPC s = A_Print ls \<longrightarrow> list_all compare_line ls)"

definition inv_table :: "Response action list \<Rightarrow> Response action list \<Rightarrow> config \<Rightarrow> bool" where
  "inv_table pB pV s \<longleftrightarrow>
     mset (timingResults s) =
       mset (stores (performed pB (brasilTask s))) + mset (stores (performed pV (viaTask s)))"

definition inv :: "Response action list \<Rightarrow> Response action list \<Rightarrow> config \<Rightarrow> bool" where
  "inv pB pV s \<longleftrightarrow>
     inv_tasks pB pV s \<and> inv_wg s \<and> inv_chan s \<and> inv_mutex s \<and> inv_agg s \<and> inv_table pB pV s"

lemmas inv_defs [cep_inv] =
  inv_def inv_tasks_def inv_wg_def inv_chan_def inv_mutex_def inv_agg_def inv_table_def

definition programs :: "Response action list \<Rightarrow> Response action list \<Rightarrow> bool" where
  "programs pB pV \<longleftrightarrow> task_prog ''BrasilAPI'' pB \<and> task_prog ''ViaCEP'' pV"

lemma programs_fetch [simp, intro]: "programs (fetchBrasilAPI w cep) (fetchViaCEP w cep)"
  by (simp add: programs_def)

lemma inv_init: "programs pB pV \<Longrightarrow>
  inv pB pV \<lparr>mainPC = M_Select, brasilTask = pB, viaTask = pV,
      aggPC = A_Idle, resultChan = [], wg = wg_add 2 0, timingMutex = False,
      timingResults = [], ctxDone = False, timer = False, console = c\<rparr>"
  by (auto simp: inv_defs programs_def running_def wg_add_def chan_cap_def agg_holds_def
      agg_past_wait_def elim!: task_prog_cases)

definition prog_of :: "Response action list \<Rightarrow> Response action list \<Rightarrow> task_id \<Rightarrow> Response action list" where
  "prog_of pB pV t = (case t of Brasil \<Rightarrow> pB | Via \<Rightarrow> pV)"

lemma task_pending:
  assumes "programs pB pV" and "inv_tasks pB pV s" and "task_of t s = a # rest"
  shows "task_prog (task_name t) (prog_of pB pV t)" and "suffix (a # rest) (prog_of pB pV t)"
  using assms
  by (cases t; simp add: programs_def inv_tasks_def task_of_def prog_of_def task_name_def)+


lemma task_step_shape [consumes 3, case_names Lock Store Unlock Send WgDone]:
  assumes "programs pB pV" and "inv_tasks pB pV s" and "task_step t s = Next s'"
  obtains r where
      "task_of t s = [Lock, Store (task_name t) (Duration r), Unlock, Send r, WgDone]"
      "\<not> timingMutex s"
      "s' = set_task t [Store (task_name t) (Duration r), Unlock, Send r, WgDone]
              (s\<lparr>timingMutex := True\<rparr>)"
  | r where
      "task_of t s = [Store (task_name t) (Duration r), Unlock, Send r, WgDone]"
      "s' = set_task t [Unlock, Send r, WgDone]
              (s\<lparr>timingResults := AList.update (task_name t) (Duration r) (timingResults s)\<rparr>)"
  | r where
      "task_of t s = [Unlock, Send r, WgDone]" "timingMutex s"
      "s' = set_task t [Send r, WgDone] (s\<lparr>timingMutex := False\<rparr>)"
  | r where
      "task_of t s = [Send r, WgDone]" "length (resultChan s) < chan_cap"
      "APIName r = task_name t" "r \<in> set (sends (prog_of pB pV t))"
      "s' = set_task t [WgDone] (s\<lparr>resultChan := resultChan s @ [r]\<rparr>)"
  | "task_of t s = [WgDone]" "wg s \<noteq> 0" "s' = set_task t [] (s\<lparr>wg := wg s - 1\<rparr>)"
  using assms(3)
proof (cases rule: task_step_cases)
  case (Lock rest)
  from task_pending [OF assms(1,2) Lock(1)] Lock that(1) show ?thesis
    by (elim task_rest_shape) auto
next
  case (Store k d rest)
  from task_pending [OF assms(1,2) Store(1)] Store that(2) show ?thesis
    by (elim task_rest_shape) auto
next
  case (Unlock rest)
  from task_pending [OF assms(1,2) Unlock(1)] Unlock that(3) show ?thesis
    by (elim task_rest_shape) auto
next
  case (Send r rest)
  from task_pending [OF assms(1,2) Send(1)] Send that(4) show ?thesis
    by (elim task_rest_shape) auto
next
  case (WgDone rest)
  from task_pending [OF assms(1,2) WgDone(1)] WgDone that(5) show ?thesis
    by (elim task_rest_shape) auto
qed

lemmas task_sel = task_of_def set_task_def prog_of_def task_name_def

lemma task_step_inv_tasks:
  assumes "programs pB pV" and "inv_tasks pB pV s" and "task_step t s = Next s'"
  shows "inv_tasks pB pV s'"
  using assms
  by (cases rule: task_step_shape; cases t)
     (auto simp: inv_tasks_def task_sel dest: suffix_ConsD)

lemma task_step_inv_wg:
  assumes "programs pB pV" and "inv_tasks pB pV s" and "task_step t s = Next s'" and "inv_wg s"
  shows "inv_wg s'"
  using assms
  by (cases rule: task_step_shape; cases t) (auto simp: inv_wg_def task_sel running_def)

lemma task_step_inv_chan:
  assumes "programs pB pV" and "inv_tasks pB pV s" and "task_step t s = Next s'" and "inv_chan s"
  shows "inv_chan s'"
  using assms
  by (cases rule: task_step_shape; cases t) (auto simp: inv_chan_def task_sel)

lemma task_step_inv_mutex:
  assumes "programs pB pV" and "inv_tasks pB pV s" and "task_step t s = Next s'" and "inv_mutex s"
  shows "inv_mutex s'"
  using assms
  by (cases rule: task_step_shape; cases t)
     (auto simp: inv_mutex_def task_sel)

lemma task_step_inv_agg:
  assumes "programs pB pV" and "inv_tasks pB pV s" and "task_step t s = Next s'" and "inv_agg s"
  shows "inv_agg s'"
  using assms
  by (cases rule: task_step_shape; cases t) (auto simp: inv_agg_def task_sel)

lemma store_key_fresh:
  assumes "programs pB pV" and "inv_tasks pB pV s" and "inv_table pB pV s"
    and "task_of t s = Store k d # rest"
  shows "k \<notin> fst ` set (timingResults s)"
proof -
  note p = task_pending [OF assms(1,2,4)]
  have k: "k = task_name t" using next_action(3) [OF p] by simp
  have own: "stores (performed (prog_of pB pV t) (task_of t s)) = []"
    using performed_before_store [OF p] assms(4) by simp
  have "set (timingResults s) =
      set (stores (performed pB (brasilTask s))) \<union> set (stores (performed pV (viaTask s)))"
    using assms(3) by (metis inv_table_def set_mset_mset set_mset_union)
  moreover have "fst ` set (stores (performed pB (brasilTask s))) \<subseteq> {task_name Brasil}"
    "fst ` set (stores (performed pV (viaTask s))) \<subseteq> {task_name Via}"
    using assms(1,2) performed_store_keys [of "''BrasilAPI''" pB "brasilTask s"]
      performed_store_keys [of "''ViaCEP''" pV "viaTask s"]
    by (simp_all add: programs_def inv_tasks_def task_name_def)
  ultimately show ?thesis
    using own k by (cases t) (auto simp: task_sel)
qed

lemma task_step_inv_table:
  assumes "programs pB pV" and "inv_tasks pB pV s" and "task_step t s = Next s'"
    and "inv_table pB pV s"
  shows "inv_table pB pV s'"
  using assms(3)
proof (cases rule: task_step_cases)
  case (Store k d rest)
  from store_key_fresh [OF assms(1,2,4) Store(1)]
  have "mset (timingResults s') = add_mset (k, d) (mset (timingResults s))"
    using Store(2) by (cases t) (simp_all add: mset_update_fresh task_sel)
  with assms(4) Store stores_performed_step [OF task_pending(2) [OF assms(1,2) Store(1)]]
  show ?thesis by (cases t) (simp_all add: inv_table_def task_sel)
next
  case (Lock rest)
  with assms(4) stores_performed_step [OF task_pending(2) [OF assms(1,2) Lock(1)]]
  show ?thesis by (cases t) (simp_all add: inv_table_def task_sel)
next
  case (Unlock rest)
  with assms(4) stores_performed_step [OF task_pending(2) [OF assms(1,2) Unlock(1)]]
  show ?thesis by (cases t) (simp_all add: inv_table_def task_sel)
next
  case (Send r rest)
  with assms(4) stores_performed_step [OF task_pending(2) [OF assms(1,2) Send(1)]]
  show ?thesis by (cases t) (simp_all add: inv_table_def task_sel)
next
  case (WgDone rest)
  with assms(4) stores_performed_step [OF task_pending(2) [OF assms(1,2) WgDone(1)]]
  show ?thesis by (cases t) (simp_all add: inv_table_def task_sel)
qed

lemma task_step_inv:
  assumes "programs pB pV" and "inv pB pV s" and "task_step t s = Next s'"
  shows "inv pB pV s'"
  using assms unfolding inv_def
  by (blast intro: task_step_inv_tasks task_step_inv_wg task_step_inv_chan
      task_step_inv_mutex task_step_inv_agg task_step_inv_table)


section \<open>Steps of the other goroutines, as guarded updates\<close>

lemma main_recv_cases [consumes 1, case_names Error Ok]:
  assumes "main_recv s = Next s'"
  obtains r rest err where "mainPC s = M_Select" "resultChan s = r # rest" "Error r = Some err"
      "s' = s\<lparr>resultChan := rest, console := console s @ [Api_Error (APIName r) err],
              mainPC := M_Exit, ctxDone := True\<rparr>"
  | r rest where "mainPC s = M_Select" "resultChan s = r # rest" "Error r = None"
      "s' = s\<lparr>resultChan := rest,
              console := console s @ [Fastest_Response (APIName r) (Some (Duration r))]
                @ print_address (Data r),
              aggPC := A_Wait, mainPC := M_Drain\<rparr>"
proof (cases "resultChan s")
  case Nil
  with assms show ?thesis by (simp add: main_recv_def split: if_splits)
next
  case (Cons r rest)
  with assms that show ?thesis
    by (cases "Error r") (auto simp: main_recv_def split: if_splits)
qed

lemma main_ctx_done_Next:
  "main_ctx_done s = Next s' \<longleftrightarrow>
     mainPC s = M_Select \<and> ctxDone s \<and> s' = s\<lparr>console := console s @ [Timeout], mainPC := M_Exit\<rparr>"
  by (auto simp: main_ctx_done_def)

lemma main_drain_Next:
  "main_drain s = Next s' \<longleftrightarrow>
     mainPC s = M_Drain \<and>
     (\<exists>r rest. resultChan s = r # rest \<and> s' = s\<lparr>resultChan := rest, mainPC := M_Sleep\<rparr>)"
  by (cases "resultChan s") (auto simp: main_drain_def)

lemma main_drain_timeout_Next:
  "main_drain_timeout s = Next s' \<longleftrightarrow> mainPC s = M_Drain \<and> timer s \<and> s' = s\<lparr>mainPC := M_Sleep\<rparr>"
  by (auto simp: main_drain_timeout_def)

lemma main_wake_Next:
  "main_wake s = Next s' \<longleftrightarrow> mainPC s = M_Sleep \<and> s' = s\<lparr>mainPC := M_Exit, ctxDone := True\<rparr>"
  by (auto simp: main_wake_def)

lemma deadline_Next: "deadline s = Next s' \<longleftrightarrow> \<not> ctxDone s \<and> s' = s\<lparr>ctxDone := True\<rparr>"
  by (auto simp: deadline_def)

lemma timer_fires_Next:
  "timer_fires s = Next s' \<longleftrightarrow> mainPC s = M_Drain \<and> \<not> timer s \<and> s' = s\<lparr>timer := True\<rparr>"
  by (auto simp: timer_fires_def)

lemma agg_wait_Next:
  "agg_wait s = Next s' \<longleftrightarrow>
     aggPC s = A_Wait \<and> wg s = 0 \<and>
     s' = s\<lparr>console := console s @ [Compare_Header], aggPC := A_Lock\<rparr>"
  by (auto simp: agg_wait_def wg_wait_def)

lemma agg_lock_Next:
  "agg_lock s = Next s' \<longleftrightarrow>
     aggPC s = A_Lock \<and> \<not> timingMutex s \<and> s' = s\<lparr>timingMutex := True, aggPC := A_Report\<rparr>"
  by (auto simp: agg_lock_def mu_lock_def)

lemma agg_report_Next:
  "agg_report it1 it2 s = Next s' \<longleftrightarrow>
     aggPC s = A_Report \<and> mset it1 = mset (timingResults s) \<and> mset it2 = mset (timingResults s) \<and>
     s' = s\<lparr>aggPC := A_Print (report (timingResults s) it1 it2)\<rparr>"
  by (auto simp: agg_report_def)

lemma agg_print_Next:
  "agg_print s = Next s' \<longleftrightarrow>
     (\<exists>l ls. aggPC s = A_Print (l # ls) \<and>
        s' = s\<lparr>console := console s @ [l], aggPC := A_Print ls\<rparr>)"
  by (auto simp: agg_print_def split: agg_pc.splits list.splits)

lemma agg_unlock_Next:
  "agg_unlock s = Next s' \<longleftrightarrow>
     aggPC s = A_Print [] \<and> timingMutex s \<and> s' = s\<lparr>timingMutex := False, aggPC := A_Done\<rparr>"
  by (auto simp: agg_unlock_def mu_unlock_def)

lemmas op_Next = main_ctx_done_Next main_drain_Next main_drain_timeout_Next
  main_wake_Next deadline_Next timer_fires_Next agg_wait_Next agg_lock_Next agg_report_Next
  agg_print_Next agg_unlock_Next

lemma running_eq_0 [simp]: "running p = 0 \<longleftrightarrow> p = []"
  by (simp add: running_def)

lemma running_Nil [simp]: "running [] = 0"
  by (simp add: running_def)

lemma holds_Nil [simp]: "\<not> holds []"
  by simp

lemmas inv_unfold = cep_inv agg_holds_def agg_past_wait_def

lemma main_recv_inv: "inv pB pV s \<Longrightarrow> main_recv s = Next s' \<Longrightarrow> inv pB pV s'"
  by (erule main_recv_cases) (simp_all add: inv_unfold)

lemma main_ctx_done_inv: "inv pB pV s \<Longrightarrow> main_ctx_done s = Next s' \<Longrightarrow> inv pB pV s'"
  by (clarsimp simp: main_ctx_done_Next inv_unfold)

lemma main_drain_inv: "inv pB pV s \<Longrightarrow> main_drain s = Next s' \<Longrightarrow> inv pB pV s'"
  by (clarsimp simp: main_drain_Next inv_unfold)

lemma main_drain_timeout_inv:
  "inv pB pV s \<Longrightarrow> main_drain_timeout s = Next s' \<Longrightarrow> inv pB pV s'"
  by (clarsimp simp: main_drain_timeout_Next inv_unfold)

lemma main_wake_inv: "inv pB pV s \<Longrightarrow> main_wake s = Next s' \<Longrightarrow> inv pB pV s'"
  by (clarsimp simp: main_wake_Next inv_unfold)

lemma deadline_inv: "inv pB pV s \<Longrightarrow> deadline s = Next s' \<Longrightarrow> inv pB pV s'"
  by (clarsimp simp: deadline_Next inv_unfold)

lemma timer_fires_inv: "inv pB pV s \<Longrightarrow> timer_fires s = Next s' \<Longrightarrow> inv pB pV s'"
  by (clarsimp simp: timer_fires_Next inv_unfold)

lemma agg_wait_inv: "inv pB pV s \<Longrightarrow> agg_wait s = Next s' \<Longrightarrow> inv pB pV s'"
  by (clarsimp simp: agg_wait_Next inv_unfold)

lemma agg_lock_inv: "inv pB pV s \<Longrightarrow> agg_lock s = Next s' \<Longrightarrow> inv pB pV s'"
  by (clarsimp simp: agg_lock_Next inv_unfold)

lemma agg_report_inv: "inv pB pV s \<Longrightarrow> agg_report it1 it2 s = Next s' \<Longrightarrow> inv pB pV s'"
  by (clarsimp simp: agg_report_Next inv_unfold report_compare_lines)

lemma agg_print_inv: "inv pB pV s \<Longrightarrow> agg_print s = Next s' \<Longrightarrow> inv pB pV s'"
  by (clarsimp simp: agg_print_Next inv_unfold)

lemma agg_unlock_inv: "inv pB pV s \<Longrightarrow> agg_unlock s = Next s' \<Longrightarrow> inv pB pV s'"
  by (clarsimp simp: agg_unlock_Next inv_unfold)

lemmas op_inv = main_recv_inv main_ctx_done_inv main_drain_inv
  main_drain_timeout_inv main_wake_inv deadline_inv timer_fires_inv agg_wait_inv agg_lock_inv
  agg_report_inv agg_print_inv agg_unlock_inv

lemma step_inv:
  assumes "programs pB pV" and "inv pB pV s" and "step s l = Next s'"
  shows "inv pB pV s'"
proof (cases l)
  case (Task t)
  with assms show ?thesis
    by (auto simp: step_def split: if_splits intro: task_step_inv)
qed (use assms in \<open>auto simp: step_def split: if_splits intro: op_inv\<close>)

lemma reachable_inv: "reachable w cep s \<Longrightarrow> inv (fetchBrasilAPI w cep) (fetchViaCEP w cep) s"
  unfolding reachable_def
proof (induction rule: reach_invariant)
  case start
  show ?case unfolding init_def by (rule inv_init) simp
next
  case (step s l s')
  then show ?case by (blast intro: step_inv programs_fetch)
qed

section \<open>Runs\<close>

text \<open>
  A configuration is reachable exactly when some schedule leads to it from the start.
  \<open>after s ls\<close> is the configuration a schedule leads to (and \<open>s\<close> itself if the schedule
  cannot be executed); it names the concrete configurations of the instances below.
\<close>

definition after :: "config \<Rightarrow> label list \<Rightarrow> config" where
  "after s ls = (case run s ls of Next s' \<Rightarrow> s' | _ \<Rightarrow> s)"

text \<open>Once \<open>main\<close> has returned, the process is gone: no label is enabled.\<close>

lemma reach_exited:
  assumes "reach step s0 s" and "mainPC s0 = M_Exit"
  shows "s = s0"
  using assms by (induction rule: reach.induct) (simp_all add: step_def)

lemma reachable_run: "reachable w cep s \<Longrightarrow> run s ls = Next s' \<Longrightarrow> reachable w cep s'"
  unfolding reachable_def run_def by (rule reach_exec)

lemma run_append:
  "run s (ls @ ls') =
     (case run s ls of Next s' \<Rightarrow> run s' ls' | Blocked \<Rightarrow> Blocked | Panic p \<Rightarrow> Panic p)"
  unfolding run_def by (rule exec_append)

lemma reachable_iff_run: "reachable w cep s \<longleftrightarrow> (\<exists>ls. run (init w cep) ls = Next s)"
  unfolding reachable_def run_def by (rule reach_iff_exec)

lemma reachable_after: "reachable w cep s \<Longrightarrow> reachable w cep (after s ls)"
  by (auto simp: after_def split: outcome.splits intro: reachable_run)

lemmas reachable_from_start = reachable_after [OF reachable_start]

lemmas eval_defs = after_def init_def step_def cep_defs chan_cap_def world_defs Let_def

section \<open>No operation panics\<close>

lemma task_step_no_panic:
  assumes "programs pB pV" and "inv pB pV s"
  shows "\<not> panics (task_step t s)"
proof (cases "task_of t s")
  case Nil
  then show ?thesis by (simp add: task_step_def)
next
  case (Cons a rest)
  from assms have it: "inv_tasks pB pV s" by (simp add: inv_def)
  note p = task_pending [OF assms(1) it Cons]
  show ?thesis
  proof (cases a)
    case Unlock
    with Cons assms(2) show ?thesis
      by (cases t) (auto simp: task_step_def perform_def inv_unfold task_sel)
  next
    case WgDone
    with Cons assms(2) show ?thesis
      by (cases t) (auto simp: task_step_def perform_def inv_unfold task_sel running_def)
  qed (use Cons in \<open>simp_all add: task_step_def perform_def\<close>)
qed

lemma main_recv_no_panic [simp]: "\<not> panics (main_recv s)"
proof (cases "resultChan s")
  case Nil
  then show ?thesis by (simp add: main_recv_def)
next
  case (Cons r rest)
  then show ?thesis by (cases "Error r") (simp_all add: main_recv_def)
qed

lemma op_no_panic [simp]:
  "\<not> panics (main_ctx_done s)" "\<not> panics (main_drain s)" "\<not> panics (main_drain_timeout s)"
  "\<not> panics (main_wake s)" "\<not> panics (deadline s)" "\<not> panics (timer_fires s)"
  "\<not> panics (agg_wait s)" "\<not> panics (agg_lock s)" "\<not> panics (agg_report it1 it2 s)"
  "\<not> panics (agg_print s)"
  by (simp_all add: main_defs agg_defs timer_defs split: agg_pc.splits list.splits)

lemma step_no_panic:
  assumes "programs pB pV" and "inv pB pV s"
  shows "\<not> panics (step s l)"
proof (cases l)
  case (Task t)
  with assms show ?thesis by (simp add: step_def task_step_no_panic)
next
  case Agg_Unlock
  with assms(2) show ?thesis by (auto simp: step_def agg_unlock_def inv_unfold)
qed (simp_all add: step_def)

text \<open>
  C3. No goroutine panics. In every reachable configuration no step panics: the wait
  group's counter never goes below zero and the mutex is never unlocked while it is not
  locked, whatever the schedule and whatever the lookups return.
\<close>

theorem race_never_panics: "reachable w cep s \<Longrightarrow> \<not> panics (step s l)"
  by (blast intro: step_no_panic [THEN notE] reachable_inv programs_fetch)

theorem race_never_panics_witness:
  "\<not> panics (step (after (init world_both_ok ''01153000'') [Task Via, Task Via]) (Task Via))"
  using race_never_panics [OF reachable_from_start] .

section \<open>Tasks never block for good\<close>

definition other :: "task_id \<Rightarrow> task_id" where
  "other t = (case t of Brasil \<Rightarrow> Via | Via \<Rightarrow> Brasil)"

lemma task_step_enabled_iff:
  assumes "programs pB pV" and "inv pB pV s" and "task_of t s = a # rest"
  shows "enabled (task_step t s) \<longleftrightarrow> \<not> (a = Lock \<and> timingMutex s)"
proof -
  from assms have it: "inv_tasks pB pV s" by (simp add: inv_def)
  from step_no_panic [OF assms(1,2), of "Task t"] have np: "\<not> panics (task_step t s)"
    by (simp add: step_def task_step_no_panic [OF assms(1,2)])
  show ?thesis
  proof (cases a)
    case (Send r)
    from assms(2) have "length (resultChan s) + length (sends (task_of t s)) \<le> chan_cap"
      by (cases t) (auto simp: inv_unfold task_sel)
    with Send assms(3) show ?thesis by (simp add: task_step_def perform_def)
  next
    case Unlock
    with assms(3) np show ?thesis
      by (cases "timingMutex s") (simp_all add: task_step_def perform_def)
  next
    case WgDone
    with assms(3) np show ?thesis
      by (cases "wg s") (simp_all add: task_step_def perform_def)
  qed (use assms(3) in \<open>simp_all add: task_step_def perform_def\<close>)
qed

text \<open>
  C1. Publishing never blocks. While \<open>main\<close> has not returned, a task whose next operation
  is the send on the result channel can perform it at once: the channel's capacity of 2
  holds every response that will ever be sent, received or not.
\<close>

theorem send_never_blocks:
  assumes "reachable w cep s" and "mainPC s \<noteq> M_Exit" and "task_of t s = Send r # rest"
  shows "enabled (step s (Task t))"
  using assms task_step_enabled_iff [OF programs_fetch reachable_inv [OF assms(1)] assms(3)]
  by (simp add: step_def)

theorem send_never_blocks_witness:
  "enabled (step (after (init world_both_ok ''01153000'')
       [Task Brasil, Task Brasil, Task Brasil, Task Brasil, Task Via, Task Via, Task Via])
     (Task Via))"
  by (rule send_never_blocks [OF reachable_from_start]) (simp_all add: eval_defs)

text \<open>
  C5. No task is blocked for good. While \<open>main\<close> has not returned, a task that has not
  finished can take its next step, or it waits for the mutex and then the other task
  holds it and can take its next step.
\<close>

theorem tasks_never_deadlock:
  assumes "reachable w cep s" and "mainPC s \<noteq> M_Exit" and "task_of t s \<noteq> []"
  shows "enabled (step s (Task t)) \<or>
         (holds (task_of (other t) s) \<and> enabled (step s (Task (other t))))"
proof -
  note i = reachable_inv [OF assms(1)]
  from assms(3) obtain a rest where t: "task_of t s = a # rest" by (cases "task_of t s") auto
  show ?thesis
  proof (cases "a = Lock \<and> timingMutex s")
    case False
    with task_step_enabled_iff [OF programs_fetch i t] assms(2) show ?thesis
      by (simp add: step_def)
  next
    case True
    with t i have h: "holds (task_of (other t) s)"
      by (cases t) (auto simp: inv_unfold task_sel other_def)
    then obtain b rest' where o: "task_of (other t) s = b # rest'" and "b \<noteq> Lock"
      by (cases "task_of (other t) s" rule: holds.cases) auto
    with task_step_enabled_iff [OF programs_fetch i o] assms(2) h show ?thesis
      by (simp add: step_def)
  qed
qed

theorem tasks_never_deadlock_witness:
  "\<not> enabled (step (after (init world_both_ok ''01153000'') [Task Via, Task Via]) (Task Brasil)) \<and>
   holds (task_of (other Brasil) (after (init world_both_ok ''01153000'') [Task Via, Task Via])) \<and>
   enabled (step (after (init world_both_ok ''01153000'') [Task Via, Task Via])
     (Task (other Brasil)))"
  using tasks_never_deadlock [OF reachable_from_start,
      of world_both_ok "''01153000''" "[Task Via, Task Via]" Brasil]
  by (simp add: eval_defs other_def)

section \<open>The timing table is accessed under mutual exclusion\<close>

text \<open>
  C4. Mutual exclusion on the timing table. In every reachable configuration at most one
  goroutine is between its \<open>Lock\<close> and its \<open>Unlock\<close> (a task storing its timing, or the
  comparison routine reading the table), and the mutex is locked exactly then.
\<close>

theorem timing_table_mutual_exclusion:
  assumes "reachable w cep s"
  shows "(timingMutex s \<longleftrightarrow> holds (brasilTask s) \<or> holds (viaTask s) \<or> agg_holds (aggPC s)) \<and>
         \<not> (holds (brasilTask s) \<and> holds (viaTask s)) \<and>
         \<not> (agg_holds (aggPC s) \<and> (holds (brasilTask s) \<or> holds (viaTask s)))"
  using reachable_inv [OF assms] by (simp add: inv_def inv_mutex_def)

theorem timing_table_mutual_exclusion_witness:
  "timingMutex (after (init world_both_ok ''01153000'') [Task Via, Task Via]) \<and>
   holds (viaTask (after (init world_both_ok ''01153000'') [Task Via, Task Via])) \<and>
   \<not> holds (brasilTask (after (init world_both_ok ''01153000'') [Task Via, Task Via]))"
  using timing_table_mutual_exclusion [OF reachable_from_start,
      of world_both_ok "''01153000''" "[Task Via, Task Via]"]
  by (simp add: eval_defs)

text \<open>
  C13. \<open>wg.Wait()\<close> returns only when both tasks are done. Once the comparison routine is
  past \<open>wg.Wait()\<close>, both tasks have executed their whole program, the counter is zero,
  and the timing table holds exactly the entries the two programs store.
\<close>

theorem wait_returns_after_both_tasks:
  assumes "reachable w cep s" and "agg_past_wait (aggPC s)"
  shows "brasilTask s = [] \<and> viaTask s = [] \<and> wg s = 0 \<and>
         mset (timingResults s) =
           mset (stores (fetchBrasilAPI w cep)) + mset (stores (fetchViaCEP w cep))"
  using reachable_inv [OF assms(1)] assms(2) by (simp add: inv_unfold)

theorem wait_returns_after_both_tasks_witness:
  "wg (after (init world_both_ok ''01153000'')
       [Task Via, Task Via, Task Via, Task Via, Recv, Task Via, Task Brasil, Task Brasil,
        Task Brasil, Task Brasil, Task Brasil, Agg_Wait]) = 0 \<and>
   mset (timingResults (after (init world_both_ok ''01153000'')
       [Task Via, Task Via, Task Via, Task Via, Recv, Task Via, Task Brasil, Task Brasil,
        Task Brasil, Task Brasil, Task Brasil, Agg_Wait]))
     = mset [(''BrasilAPI'', 120), (''ViaCEP'', 80)]"
  using wait_returns_after_both_tasks [OF reachable_from_start,
      of world_both_ok "''01153000''"
        "[Task Via, Task Via, Task Via, Task Via, Recv, Task Via, Task Brasil, Task Brasil,
          Task Brasil, Task Brasil, Task Brasil, Agg_Wait]"]
  by (simp add: eval_defs agg_past_wait_def)

section \<open>What the comparison routine sees\<close>

lemma task_prog_stores_empty_iff:
  "task_prog n p \<Longrightarrow> stores p = [] \<longleftrightarrow> (\<exists>r \<in> set (sends p). Error r \<noteq> None)"
  by (erule task_prog_cases) auto

lemma task_prog_stores_length: "task_prog n p \<Longrightarrow> length (stores p) \<le> 1"
  by (erule task_prog_cases) auto

text \<open>
  C14. The comparison is unavailable exactly when a lookup failed. When the comparison
  routine has read the table, what it goes on to print is the line ``unavailable'' if
  and only if one of the two lookups published an error; otherwise both timings are in
  the table.
\<close>

theorem comparison_unavailable_iff_a_lookup_failed:
  assumes "reachable w cep s" and "step s (Agg_Report it1 it2) = Next s'"
  shows "aggPC s' = A_Print (report (timingResults s) it1 it2) \<and>
         (report (timingResults s) it1 it2 = [Compare_Unavailable] \<longleftrightarrow>
            (\<exists>r \<in> set (sends (fetchBrasilAPI w cep) @ sends (fetchViaCEP w cep)). Error r \<noteq> None))"
proof -
  from assms(2) have a: "aggPC s = A_Report"
    and c: "aggPC s' = A_Print (report (timingResults s) it1 it2)"
    by (auto simp: step_def agg_report_Next split: if_splits)
  then have "agg_past_wait (aggPC s)" by (simp add: agg_past_wait_def)
  with reachable_inv [OF assms(1)]
  have "mset (timingResults s) =
      mset (stores (fetchBrasilAPI w cep)) + mset (stores (fetchViaCEP w cep))"
    by (simp add: inv_unfold)
  then have "length (timingResults s) =
      length (stores (fetchBrasilAPI w cep)) + length (stores (fetchViaCEP w cep))"
    by (metis length_append mset_append mset_eq_length)
  moreover note task_prog_stores_length [OF fetchBrasilAPI_task_prog, of w cep]
    task_prog_stores_length [OF fetchViaCEP_task_prog, of w cep]
  ultimately have "\<not> length (timingResults s) > 1 \<longleftrightarrow>
      stores (fetchBrasilAPI w cep) = [] \<or> stores (fetchViaCEP w cep) = []"
    by (cases "stores (fetchBrasilAPI w cep)"; cases "stores (fetchViaCEP w cep)") auto
  then have "report (timingResults s) it1 it2 = [Compare_Unavailable] \<longleftrightarrow>
      stores (fetchBrasilAPI w cep) = [] \<or> stores (fetchViaCEP w cep) = []"
    by (auto simp: report_def Let_def)
  with c show ?thesis
    by (simp add: task_prog_stores_empty_iff [OF fetchBrasilAPI_task_prog]
        task_prog_stores_empty_iff [OF fetchViaCEP_task_prog] bex_Un)
qed

theorem comparison_unavailable_iff_a_lookup_failed_witness:
  "report (timingResults (after (init world_brasil_down ''01153000'')
       [Task Via, Task Via, Task Via, Task Via, Recv, Task Via, Task Brasil, Task Brasil,
        Agg_Wait, Agg_Lock])) [(''ViaCEP'', 80)] [(''ViaCEP'', 80)] = [Compare_Unavailable]"
  using comparison_unavailable_iff_a_lookup_failed [OF reachable_from_start,
      of world_brasil_down "''01153000''"
        "[Task Via, Task Via, Task Via, Task Via, Recv, Task Via, Task Brasil, Task Brasil,
          Agg_Wait, Agg_Lock]"
        "[(''ViaCEP'', 80)]" "[(''ViaCEP'', 80)]"]
  by (simp add: eval_defs)

section \<open>Every run is finite\<close>

fun main_fuel :: "main_pc \<Rightarrow> nat" where
  "main_fuel M_Select = 12"
| "main_fuel M_Drain = 2"
| "main_fuel M_Sleep = 1"
| "main_fuel M_Exit = 0"

fun agg_fuel :: "agg_pc \<Rightarrow> nat" where
  "agg_fuel A_Idle = 0"
| "agg_fuel A_Wait = 9"
| "agg_fuel A_Lock = 8"
| "agg_fuel A_Report = 7"
| "agg_fuel (A_Print ls) = 1 + length ls"
| "agg_fuel A_Done = 0"

definition fuel :: "config \<Rightarrow> nat" where
  "fuel s =
     length (brasilTask s) + length (viaTask s) + main_fuel (mainPC s) + agg_fuel (aggPC s)
       + of_bool (\<not> ctxDone s) + of_bool (\<not> timer s)"

lemma task_step_fuel: "task_step t s = Next s' \<Longrightarrow> fuel s' < fuel s"
  by (erule task_step_cases; cases t) (simp_all add: fuel_def task_sel)

lemma main_recv_fuel: "main_recv s = Next s' \<Longrightarrow> fuel s' < fuel s"
  by (erule main_recv_cases) (simp_all add: fuel_def)

lemma op_fuel:
  "main_ctx_done s = Next s' \<Longrightarrow> fuel s' < fuel s"
  "main_drain s = Next s' \<Longrightarrow> fuel s' < fuel s"
  "main_drain_timeout s = Next s' \<Longrightarrow> fuel s' < fuel s"
  "main_wake s = Next s' \<Longrightarrow> fuel s' < fuel s"
  "deadline s = Next s' \<Longrightarrow> fuel s' < fuel s"
  "timer_fires s = Next s' \<Longrightarrow> fuel s' < fuel s"
  "agg_wait s = Next s' \<Longrightarrow> fuel s' < fuel s"
  "agg_lock s = Next s' \<Longrightarrow> fuel s' < fuel s"
  "agg_print s = Next s' \<Longrightarrow> fuel s' < fuel s"
  "agg_unlock s = Next s' \<Longrightarrow> fuel s' < fuel s"
  by (auto simp: op_Next fuel_def)

text \<open>
  The comparison prints at most five lines, because the table has at most one entry
  per task.
\<close>

lemma table_length:
  assumes "programs pB pV" and "inv pB pV s"
  shows "length (timingResults s) \<le> 2"
proof -
  from assms(2) have "length (timingResults s) =
      length (stores (performed pB (brasilTask s))) + length (stores (performed pV (viaTask s)))"
    unfolding inv_def inv_table_def by (metis length_append mset_append mset_eq_length)
  moreover from assms have t: "task_prog ''BrasilAPI'' pB" "suffix (brasilTask s) pB"
    "task_prog ''ViaCEP'' pV" "suffix (viaTask s) pV"
    by (simp_all add: programs_def inv_def inv_tasks_def)
  note stores_performed_length [OF t(2)] task_prog_stores_length [OF t(1)]
    stores_performed_length [OF t(4)] task_prog_stores_length [OF t(3)]
  ultimately show ?thesis by simp
qed

lemma agg_report_fuel:
  assumes "programs pB pV" and "inv pB pV s" and "agg_report it1 it2 s = Next s'"
  shows "fuel s' < fuel s"
  using assms(3) table_length [OF assms(1,2)] length_report [of it2 "timingResults s" it1]
  by (auto simp: agg_report_Next fuel_def)

lemma step_fuel:
  assumes "programs pB pV" and "inv pB pV s" and "step s l = Next s'"
  shows "fuel s' < fuel s"
  using assms(3)
  by (cases rule: step_cases)
    (simp_all add: task_step_fuel main_recv_fuel op_fuel agg_report_fuel [OF assms(1,2)])

lemma run_fuel:
  assumes "programs pB pV" and "inv pB pV s" and "run s ls = Next s'"
  shows "length ls + fuel s' \<le> fuel s"
  using assms(2,3) unfolding run_def
  by (rule exec_measure_inv [where I = "inv pB pV" and f = fuel, rotated 2])
    (blast intro: step_inv step_fuel assms(1))+

lemma task_prog_length: "task_prog n p \<Longrightarrow> length p \<le> 5"
  by (erule task_prog_cases) auto

text \<open>
  C11. Every run ends within 24 steps. No schedule from the start of the race is longer
  than 24 steps: at most five operations per task, three steps of \<open>main\<close>, nine of the
  comparison routine (five of them the lines it prints), and the two timers. The bound
  is reached (see the instance).
\<close>

theorem race_terminates:
  assumes "run (init w cep) ls = Next s"
  shows "length ls \<le> 24"
proof -
  have "fuel (init w cep) \<le> 24"
    using task_prog_length [OF fetchBrasilAPI_task_prog, of w cep]
      task_prog_length [OF fetchViaCEP_task_prog, of w cep]
    by (simp add: fuel_def init_def)
  with run_fuel [OF programs_fetch reachable_inv [OF reachable_start] assms]
  show ?thesis by simp
qed

theorem race_terminates_witness:
  "run (init world_both_ok ''01153000'')
     [Task Via, Task Via, Task Via, Deadline, Task Via, Recv, Task Via, Task Brasil, Task Brasil,
      Task Brasil, Task Brasil, Task Brasil, Agg_Wait, Agg_Lock,
      Agg_Report [(''ViaCEP'', 80), (''BrasilAPI'', 120)] [(''ViaCEP'', 80), (''BrasilAPI'', 120)],
      Agg_Print, Agg_Print, Agg_Print, Agg_Print, Agg_Print, Agg_Unlock, Timer, Drain, Wake]
   = Next (after (init world_both_ok ''01153000'')
     [Task Via, Task Via, Task Via, Deadline, Task Via, Recv, Task Via, Task Brasil, Task Brasil,
      Task Brasil, Task Brasil, Task Brasil, Agg_Wait, Agg_Lock,
      Agg_Report [(''ViaCEP'', 80), (''BrasilAPI'', 120)] [(''ViaCEP'', 80), (''BrasilAPI'', 120)],
      Agg_Print, Agg_Print, Agg_Print, Agg_Print, Agg_Print, Agg_Unlock, Timer, Drain, Wake])
   \<and> length
     [Task Via, Task Via, Task Via, Deadline, Task Via, Recv, Task Via, Task Brasil, Task Brasil,
      Task Brasil, Task Brasil, Task Brasil, Agg_Wait, Agg_Lock,
      Agg_Report [(''ViaCEP'', 80), (''BrasilAPI'', 120)] [(''ViaCEP'', 80), (''BrasilAPI'', 120)],
      Agg_Print, Agg_Print, Agg_Print, Agg_Print, Agg_Print, Agg_Unlock, Timer, Drain, Wake] = 24"
proof -
  have r: "run (init world_both_ok ''01153000'')
     [Task Via, Task Via, Task Via, Deadline, Task Via, Recv, Task Via, Task Brasil, Task Brasil,
      Task Brasil, Task Brasil, Task Brasil, Agg_Wait, Agg_Lock,
      Agg_Report [(''ViaCEP'', 80), (''BrasilAPI'', 120)] [(''ViaCEP'', 80), (''BrasilAPI'', 120)],
      Agg_Print, Agg_Print, Agg_Print, Agg_Print, Agg_Print, Agg_Unlock, Timer, Drain, Wake]
   = Next (after (init world_both_ok ''01153000'')
     [Task Via, Task Via, Task Via, Deadline, Task Via, Recv, Task Via, Task Brasil, Task Brasil,
      Task Brasil, Task Brasil, Task Brasil, Agg_Wait, Agg_Lock,
      Agg_Report [(''ViaCEP'', 80), (''BrasilAPI'', 120)] [(''ViaCEP'', 80), (''BrasilAPI'', 120)],
      Agg_Print, Agg_Print, Agg_Print, Agg_Print, Agg_Print, Agg_Unlock, Timer, Drain, Wake])"
    by (simp add: eval_defs)
  from race_terminates [OF r] r show ?thesis by simp
qed

section \<open>The coordinator can always finish\<close>

definition give_up :: "config \<Rightarrow> label list" where
  "give_up s =
     (case mainPC s of
        M_Select \<Rightarrow> (if ctxDone s then [] else [Deadline]) @ [Ctx_Done]
      | M_Drain \<Rightarrow> (if timer s then [] else [Timer]) @ [Drain_Timeout, Wake]
      | M_Sleep \<Rightarrow> [Wake]
      | M_Exit \<Rightarrow> [])"

text \<open>
  C12. The coordinator never hangs. From every configuration, the timers alone lead
  \<open>main\<close> to its return: the schedule \<open>give_up s\<close> (the deadline or the 100 ms timer
  fires, \<open>main\<close> takes the timeout case, sleeps and returns) can always be executed,
  whether or not a task ever completes.
\<close>

theorem coordinator_can_always_exit:
  "\<exists>s'. run s (give_up s) = Next s' \<and> mainPC s' = M_Exit"
  by (cases "mainPC s")
    (simp_all add: give_up_def step_def main_defs timer_defs)

section \<open>The first response wins\<close>

lemma step_back_to_select:
  assumes "step s l = Next s'" and "mainPC s' = M_Select"
  shows "mainPC s = M_Select"
proof (cases l)
  case (Task t)
  with assms show ?thesis
    by (auto simp: step_def split: if_splits elim!: task_step_cases; cases t; simp add: task_sel)
next
  case Recv
  with assms show ?thesis by (auto simp: step_def split: if_splits elim!: main_recv_cases)
qed (use assms in \<open>auto simp: step_def op_Next split: if_splits\<close>)

lemma step_keeps_head:
  assumes "step s l = Next s'" and "mainPC s' = M_Select" and "resultChan s = r # rest"
  shows "\<exists>rest'. resultChan s' = r # rest'"
proof (cases l)
  case (Task t)
  with assms show ?thesis
    by (auto simp: step_def split: if_splits elim!: task_step_cases; cases t; simp add: task_sel)
next
  case Recv
  with assms show ?thesis by (auto simp: step_def split: if_splits elim!: main_recv_cases)
qed (use assms in \<open>auto simp: step_def op_Next split: if_splits\<close>)

lemma run_keeps_head:
  assumes "run s ls = Next s'" and "mainPC s' = M_Select" and "resultChan s = r # rest"
  shows "\<exists>rest'. resultChan s' = r # rest'"
  using assms
proof (induction ls arbitrary: s rest)
  case Nil
  then show ?case by simp
next
  case (Cons l ls)
  then obtain s1 where 1: "step s l = Next s1" and 2: "run s1 ls = Next s'"
    by (auto split: outcome.splits)
  have "mainPC s1 = M_Select"
    using 2 Cons.prems(2)
  proof (induction ls arbitrary: s1)
    case Nil
    then show ?case by simp
  next
    case (Cons l' ls')
    then show ?case
      by (auto split: outcome.splits dest: step_back_to_select)
  qed
  from step_keeps_head [OF 1 this Cons.prems(3)] obtain rest1 where "resultChan s1 = r # rest1" ..
  from Cons.IH [OF 2 Cons.prems(2) this] show ?case .
qed

text \<open>
  C2. The first response wins, failures included. Once a response is at the head of the
  channel, nothing that happens before \<open>main\<close> receives (the other task publishing,
  the deadline expiring) changes what \<open>main\<close> reports: it prints that response's
  error and returns, with no fallback to the other backend, or prints that response's
  name, duration and address and goes on.
\<close>

theorem first_response_wins:
  assumes "resultChan s = r # rest" and "run s ls = Next s1" and "mainPC s1 = M_Select"
    and "step s1 Recv = Next s2"
  shows "console s2 = console s1 @
           (case Error r of
              Some e \<Rightarrow> [Api_Error (APIName r) e]
            | None \<Rightarrow> Fastest_Response (APIName r) (Some (Duration r)) # print_address (Data r))
         \<and> mainPC s2 = (if Error r = None then M_Drain else M_Exit)"
proof -
  from run_keeps_head [OF assms(2,3,1)] obtain rest' where "resultChan s1 = r # rest'" ..
  with assms(4) show ?thesis
    by (auto simp: step_def split: if_splits elim!: main_recv_cases)
qed

theorem first_response_wins_witness:
  "console (after (init world_brasil_down ''01153000'')
       [Task Brasil, Task Via, Task Via, Task Via, Task Via, Deadline, Recv])
     = [Searching ''01153000'', Api_Error ''BrasilAPI'' (TransportError ''connection refused'')] \<and>
   mainPC (after (init world_brasil_down ''01153000'')
       [Task Brasil, Task Via, Task Via, Task Via, Task Via, Deadline, Recv]) = M_Exit"
  using first_response_wins
    [of "after (init world_brasil_down ''01153000'') [Task Brasil]"
        "failed ''BrasilAPI'' (TransportError ''connection refused'') 15" "[]"
        "[Task Via, Task Via, Task Via, Task Via, Deadline]"
        "after (init world_brasil_down ''01153000'')
           [Task Brasil, Task Via, Task Via, Task Via, Task Via, Deadline]"
        "after (init world_brasil_down ''01153000'')
           [Task Brasil, Task Via, Task Via, Task Via, Task Via, Deadline, Recv]"]
  by (simp add: eval_defs)

text \<open>
  C23. A ready response does not exclude the timeout. When a response is in the channel
  and the context is done, both cases of the first \<open>select\<close> can proceed; the \<open>select\<close> may
  take \<open>ctx.Done()\<close>, and then the program reports a timeout although a lookup has
  answered.
\<close>

theorem timeout_can_preempt_response:
  assumes "mainPC s = M_Select" and "resultChan s = r # rest" and "ctxDone s"
  shows "enabled (step s Recv) \<and>
         step s Ctx_Done = Next (s\<lparr>console := console s @ [Timeout], mainPC := M_Exit\<rparr>)"
  using assms by (cases "Error r") (simp_all add: step_def main_defs)

theorem timeout_can_preempt_response_witness:
  "enabled (step (after (init world_both_ok ''01153000'')
       [Task Via, Task Via, Task Via, Task Via, Deadline]) Recv) \<and>
   console (after (init world_both_ok ''01153000'')
       [Task Via, Task Via, Task Via, Task Via, Deadline, Ctx_Done])
     = [Searching ''01153000'', Timeout]"
  using timeout_can_preempt_response
    [of "after (init world_both_ok ''01153000'') [Task Via, Task Via, Task Via, Task Via, Deadline]"
        "\<lparr>Data = ViaData sample_via, APIName = ''ViaCEP'', Error = None, Duration = 80\<rparr>" "[]"]
  by (simp add: eval_defs)

lemma header_not_in_address [simp]: "Compare_Header \<notin> set (print_address p)"
  by (cases p) simp_all

text \<open>
  C21. The comparison can be lost. If the ViaCEP lookup succeeds, there is a schedule in
  which its response is printed as the fastest and \<open>main\<close> returns (after the 100 ms timer
  and the final sleep) while the other task is still running: the process ends and the
  comparison block is never printed.
\<close>

theorem comparison_can_be_lost:
  assumes "success_prog ''ViaCEP'' (fetchViaCEP w cep)"
  shows "\<exists>s d. run (init w cep)
                 [Task Via, Task Via, Task Via, Task Via, Recv, Timer, Drain_Timeout, Wake] = Next s
            \<and> mainPC s = M_Exit \<and> Fastest_Response ''ViaCEP'' (Some d) \<in> set (console s)
            \<and> Compare_Header \<notin> set (console s)"
proof -
  from assms obtain r where p: "fetchViaCEP w cep =
      [Lock, Store ''ViaCEP'' (Duration r), Unlock, Send r, WgDone]"
    and r: "APIName r = ''ViaCEP''" "Error r = None"
    by (auto simp: success_prog_def split: list.splits)
  show ?thesis
    by (auto simp: init_def p r step_def race_defs sync_defs chan_cap_def)
qed

theorem comparison_can_be_lost_witness:
  "\<exists>s d. run (init world_both_ok ''01153000'')
            [Task Via, Task Via, Task Via, Task Via, Recv, Timer, Drain_Timeout, Wake] = Next s
     \<and> mainPC s = M_Exit \<and> Fastest_Response ''ViaCEP'' (Some d) \<in> set (console s)
     \<and> Compare_Header \<notin> set (console s)"
  by (rule comparison_can_be_lost) (simp add: success_prog_def lookup_defs world_defs Let_def)

section \<open>Schedules that run one goroutine on\<close>

text \<open>
  The schedules from which the existence claims are built: a task whose partner is
  outside the critical section can perform any number of its remaining operations in a
  row, and the comparison routine can print any number of its pending lines.
\<close>

lemma run_trans: "run s ls = Next s1 \<Longrightarrow> run s1 ls' = Next s2 \<Longrightarrow> run s (ls @ ls') = Next s2"
  by (simp add: run_append)

lemma other_simps [simp]: "other Brasil = Via" "other Via = Brasil"
  by (simp_all add: other_def)

lemma other_other [simp]: "other (other t) = t"
  by (cases t) simp_all

lemma task_step_tasks:
  assumes "task_step t s = Next s'" and "task_of t s = a # rest"
  shows "task_of t s' = rest" and "task_of (other t) s' = task_of (other t) s"
    and "resultChan s' = resultChan s @ sends [a]"
  using assms by (cases rule: task_step_cases; cases t; simp add: task_sel)+

lemma run_task_steps:
  assumes "programs pB pV"
  shows "inv pB pV s \<Longrightarrow> mainPC s \<noteq> M_Exit \<Longrightarrow> k \<le> length (task_of t s)
    \<Longrightarrow> \<not> holds (task_of (other t) s)
    \<Longrightarrow> \<exists>s'. run s (replicate k (Task t)) = Next s' \<and> task_of t s' = drop k (task_of t s)
          \<and> task_of (other t) s' = task_of (other t) s \<and> mainPC s' = mainPC s
          \<and> aggPC s' = aggPC s \<and> console s' = console s
          \<and> resultChan s' = resultChan s @ sends (take k (task_of t s))"
proof (induction k arbitrary: s)
  case 0
  then show ?case by simp
next
  case (Suc k)
  then obtain a rest where t: "task_of t s = a # rest" by (cases "task_of t s") auto
  have "\<not> (a = Lock \<and> timingMutex s)"
    using Suc.prems(1,4) t by (cases t) (auto simp: inv_unfold task_sel)
  with task_step_enabled_iff [OF assms Suc.prems(1) t] obtain s1 where
    s1: "task_step t s = Next s1" by (cases "task_step t s") auto
  note f = task_step_tasks [OF s1 t] task_step_frame [OF s1]
  from s1 Suc.prems(2) have st: "step s (Task t) = Next s1" by (simp add: step_def)
  from Suc.prems f t have "\<exists>s'. run s1 (replicate k (Task t)) = Next s'
      \<and> task_of t s' = drop k (task_of t s1)
      \<and> task_of (other t) s' = task_of (other t) s1 \<and> mainPC s' = mainPC s1
      \<and> aggPC s' = aggPC s1 \<and> console s' = console s1
      \<and> resultChan s' = resultChan s1 @ sends (take k (task_of t s1))"
    by (intro Suc.IH step_inv [OF assms Suc.prems(1) st]) simp_all
  with st f t show ?case by (cases a) auto
qed


lemma run_agg_print:
  "aggPC s = A_Print (xs @ ys) \<Longrightarrow> mainPC s \<noteq> M_Exit \<Longrightarrow>
     run s (replicate (length xs) Agg_Print)
       = Next (s\<lparr>console := console s @ xs, aggPC := A_Print ys\<rparr>)"
proof (induction xs arbitrary: s)
  case Nil
  then show ?case by simp
next
  case (Cons x xs)
  from Cons.prems have "step s Agg_Print
      = Next (s\<lparr>console := console s @ [x], aggPC := A_Print (xs @ ys)\<rparr>)"
    by (simp add: step_def agg_print_def)
  with Cons.IH [of "s\<lparr>console := console s @ [x], aggPC := A_Print (xs @ ys)\<rparr>"] Cons.prems(2)
  show ?case by simp
qed

lemma init_task_prog: "task_prog (task_name t) (task_of t (init w cep))"
  by (cases t) (simp_all add: task_of_def task_name_def init_def)

lemma init_sel:
  "mainPC (init w cep) = M_Select" "aggPC (init w cep) = A_Idle"
  "console (init w cep) = [Searching cep]" "resultChan (init w cep) = []"
  by (simp_all add: init_def)

lemma run_task_to_end:
  assumes "reachable w cep s" and "mainPC s \<noteq> M_Exit" and "\<not> holds (task_of (other t) s)"
  obtains s' where "run s (replicate (length (task_of t s)) (Task t)) = Next s'"
    "task_of t s' = []" "task_of (other t) s' = task_of (other t) s" "mainPC s' = mainPC s"
    "aggPC s' = aggPC s" "console s' = console s"
  using run_task_steps [OF programs_fetch reachable_inv [OF assms(1)] assms(2) _ assms(3),
      where k = "length (task_of t s)"]
  by auto

end
