(* ===== verification/Cep_Simple.thy ===== *)
theory Cep_Simple
  imports Cep_Lookup Cep_System
begin

text \<open>
  The race of \<open>src/unnamed/part_000\<close>, the program without timing: \<open>main\<close> starts the two
  lookups, which share only the result channel, and waits in one \<open>select\<close> for the first
  response or for the deadline of the context; then it returns. The system is built like
  the one of \<open>Cep_Race\<close>, over the same channel operations and the same labels for the
  tasks.
\<close>

section \<open>Configurations\<close>

datatype main_pc0 = S_Select | S_Exit

record config0 =
  mainPC0 :: main_pc0
  brasilTask0 :: "Response0 action list"
  viaTask0 :: "Response0 action list"
  resultChan0 :: "Response0 chan"
  ctxDone0 :: bool
  console0 :: "out_line list"

definition init0 :: "world \<Rightarrow> string \<Rightarrow> config0" where
  "init0 w cep =
     \<lparr>mainPC0 = S_Select, brasilTask0 = fetchBrasilAPI0 w cep, viaTask0 = fetchViaCEP0 w cep,
      resultChan0 = [], ctxDone0 = False, console0 = [Searching cep]\<rparr>"

definition usage_exit0 :: config0 where
  "usage_exit0 =
     \<lparr>mainPC0 = S_Exit, brasilTask0 = [], viaTask0 = [], resultChan0 = [], ctxDone0 = False,
      console0 = [Usage]\<rparr>"

definition main_start0 :: "world \<Rightarrow> string list \<Rightarrow> config0" where
  "main_start0 w args = (if length args < 2 then usage_exit0 else init0 w (args ! 1))"

section \<open>Steps\<close>

definition task_of0 :: "task_id \<Rightarrow> config0 \<Rightarrow> Response0 action list" where
  "task_of0 t s = (case t of Brasil \<Rightarrow> brasilTask0 s | Via \<Rightarrow> viaTask0 s)"

definition set_task0 :: "task_id \<Rightarrow> Response0 action list \<Rightarrow> config0 \<Rightarrow> config0" where
  "set_task0 t p s = (case t of Brasil \<Rightarrow> s\<lparr>brasilTask0 := p\<rparr> | Via \<Rightarrow> s\<lparr>viaTask0 := p\<rparr>)"

text \<open>
  The lookups of this program have no wait group and no mutex: their only operation on a
  shared object is the send, and the program of each is that one send (\<open>fetch0_shape\<close>
  below). The other operations of the type \<open>action\<close>, which this program shares with
  \<open>main.go\<close>, never occur in it; \<open>perform0\<close> passes over them.
\<close>

definition perform0 :: "Response0 action \<Rightarrow> config0 \<Rightarrow> config0 outcome" where
  "perform0 a s =
     (case a of
        Send r \<Rightarrow> map_outcome (\<lambda>b. s\<lparr>resultChan0 := b\<rparr>) (chan_send r (resultChan0 s))
      | _ \<Rightarrow> Next s)"

definition task_step0 :: "task_id \<Rightarrow> config0 \<Rightarrow> config0 outcome" where
  "task_step0 t s =
     (case task_of0 t s of
        [] \<Rightarrow> Blocked
      | a # rest \<Rightarrow> map_outcome (set_task0 t rest) (perform0 a s))"

text \<open>
  The \<open>select\<close>, case \<open>result := <-resultChan\<close>: the error, or the name of the API and the
  address; \<open>main\<close> returns in both cases and its deferred \<open>cancel()\<close> ends the context.
\<close>

definition main_recv0 :: "config0 \<Rightarrow> config0 outcome" where
  "main_recv0 s =
     (if mainPC0 s \<noteq> S_Select then Blocked
      else case chan_recv (resultChan0 s) of
             Blocked \<Rightarrow> Blocked
           | Panic p \<Rightarrow> Panic p
           | Next (result, rest) \<Rightarrow>
               (case Error result of
                  Some err \<Rightarrow>
                    Next (s\<lparr>resultChan0 := rest,
                            console0 := console0 s @ [Api_Error (APIName result) err],
                            mainPC0 := S_Exit, ctxDone0 := True\<rparr>)
                | None \<Rightarrow>
                    Next (s\<lparr>resultChan0 := rest,
                            console0 := console0 s @ [Fastest_Response (APIName result) None]
                              @ print_address (Data result),
                            mainPC0 := S_Exit, ctxDone0 := True\<rparr>)))"

definition main_ctx_done0 :: "config0 \<Rightarrow> config0 outcome" where
  "main_ctx_done0 s =
     (if mainPC0 s \<noteq> S_Select \<or> \<not> ctxDone0 s then Blocked
      else Next (s\<lparr>console0 := console0 s @ [Timeout], mainPC0 := S_Exit\<rparr>))"

definition deadline0 :: "config0 \<Rightarrow> config0 outcome" where
  "deadline0 s = (if ctxDone0 s then Blocked else Next (s\<lparr>ctxDone0 := True\<rparr>))"

datatype label0 = Task0 task_id | Deadline0 | Recv0 | Ctx_Done0

definition step0 :: "config0 \<Rightarrow> label0 \<Rightarrow> config0 outcome" where
  "step0 s l =
     (if mainPC0 s = S_Exit then Blocked
      else case l of
             Task0 t \<Rightarrow> task_step0 t s
           | Deadline0 \<Rightarrow> deadline0 s
           | Recv0 \<Rightarrow> main_recv0 s
           | Ctx_Done0 \<Rightarrow> main_ctx_done0 s)"

definition run0 :: "config0 \<Rightarrow> label0 list \<Rightarrow> config0 outcome" where
  "run0 = exec step0"

definition reachable0 :: "world \<Rightarrow> string \<Rightarrow> config0 \<Rightarrow> bool" where
  "reachable0 w cep = reach step0 (init0 w cep)"

lemmas task_defs0 = task_step0_def perform0_def task_of0_def set_task0_def
lemmas main_defs0 = main_recv0_def main_ctx_done0_def deadline0_def
lemmas simple_defs [cep_defs] = task_defs0 main_defs0

lemma run0_simps [simp]:
  "run0 s [] = Next s"
  "run0 s (l # ls) =
     (case step0 s l of Next s' \<Rightarrow> run0 s' ls | Blocked \<Rightarrow> Blocked | Panic p \<Rightarrow> Panic p)"
  unfolding run0_def by simp_all

lemma reachable0_start [simp, intro]: "reachable0 w cep (init0 w cep)"
  by (simp add: reachable0_def reach.start)

lemma reachable0_step [intro]:
  "reachable0 w cep s \<Longrightarrow> step0 s l = Next s' \<Longrightarrow> reachable0 w cep s'"
  unfolding reachable0_def by (rule reach.step)

lemma reachable0_run: "reachable0 w cep s \<Longrightarrow> run0 s ls = Next s' \<Longrightarrow> reachable0 w cep s'"
  unfolding reachable0_def run0_def by (rule reach_exec)

section \<open>Steps as guarded updates\<close>

lemma fetch0_shape:
  "\<exists>r. fetchBrasilAPI0 w cep = [Send r] \<and> APIName r = ''BrasilAPI''"
  "\<exists>r. fetchViaCEP0 w cep = [Send r] \<and> APIName r = ''ViaCEP''"
  by (auto simp: lookup_defs Let_def split: sum.splits)

lemma task_step0_cases [consumes 1, case_names Send Other]:
  assumes "task_step0 t s = Next s'"
  obtains r rest where "task_of0 t s = Send r # rest" "length (resultChan0 s) < chan_cap"
      "s' = set_task0 t rest (s\<lparr>resultChan0 := resultChan0 s @ [r]\<rparr>)"
  | a rest where "task_of0 t s = a # rest" "sends (a # rest) = sends rest"
      "s' = set_task0 t rest s"
proof (cases "task_of0 t s")
  case Nil
  with assms show ?thesis by (simp add: task_step0_def)
next
  case (Cons a rest)
  with assms that show ?thesis
    by (cases a) (auto simp: task_step0_def perform0_def map_outcome_eq_Next chan_send_Next)
qed

lemma main_recv0_cases [consumes 1, case_names Error Ok]:
  assumes "main_recv0 s = Next s'"
  obtains r rest err where "mainPC0 s = S_Select" "resultChan0 s = r # rest"
      "Error r = Some err"
      "s' = s\<lparr>resultChan0 := rest, console0 := console0 s @ [Api_Error (APIName r) err],
              mainPC0 := S_Exit, ctxDone0 := True\<rparr>"
  | r rest where "mainPC0 s = S_Select" "resultChan0 s = r # rest" "Error r = None"
      "s' = s\<lparr>resultChan0 := rest,
              console0 := console0 s @ [Fastest_Response (APIName r) None]
                @ print_address (Data r),
              mainPC0 := S_Exit, ctxDone0 := True\<rparr>"
proof (cases "resultChan0 s")
  case Nil
  with assms show ?thesis by (simp add: main_recv0_def split: if_splits)
next
  case (Cons r rest)
  with assms that show ?thesis
    by (cases "Error r") (auto simp: main_recv0_def split: if_splits)
qed

lemma main_ctx_done0_Next:
  "main_ctx_done0 s = Next s' \<longleftrightarrow>
     mainPC0 s = S_Select \<and> ctxDone0 s
     \<and> s' = s\<lparr>console0 := console0 s @ [Timeout], mainPC0 := S_Exit\<rparr>"
  by (auto simp: main_ctx_done0_def)

lemma deadline0_Next: "deadline0 s = Next s' \<longleftrightarrow> \<not> ctxDone0 s \<and> s' = s\<lparr>ctxDone0 := True\<rparr>"
  by (auto simp: deadline0_def)

lemma step0_cases [consumes 1, case_names Task Deadline Recv Ctx_Done]:
  assumes "step0 s l = Next s'"
  obtains t where "mainPC0 s = S_Select" "l = Task0 t" "task_step0 t s = Next s'"
  | "mainPC0 s = S_Select" "l = Deadline0" "deadline0 s = Next s'"
  | "mainPC0 s = S_Select" "l = Recv0" "main_recv0 s = Next s'"
  | "mainPC0 s = S_Select" "l = Ctx_Done0" "main_ctx_done0 s = Next s'"
  using assms by (cases l; cases "mainPC0 s") (auto simp: step0_def)

lemmas task_sel0 = task_of0_def set_task0_def

section \<open>What the program promises\<close>

definition answer0 :: "Response0 \<Rightarrow> out_line list" where
  "answer0 r =
     (case Error r of
        Some err \<Rightarrow> [Api_Error (APIName r) err]
      | None \<Rightarrow> Fastest_Response (APIName r) None # print_address (Data r))"

definition responses0 :: "world \<Rightarrow> string \<Rightarrow> Response0 list" where
  "responses0 w cep = sends (fetchBrasilAPI0 w cep) @ sends (fetchViaCEP0 w cep)"

definition outcomes0 :: "world \<Rightarrow> string \<Rightarrow> out_line list list" where
  "outcomes0 w cep =
     map (\<lambda>lines. Searching cep # lines) ([Timeout] # map answer0 (responses0 w cep))"

section \<open>The invariant\<close>

definition inv_chan0 :: "config0 \<Rightarrow> bool" where
  "inv_chan0 s \<longleftrightarrow>
     length (resultChan0 s) + length (sends (brasilTask0 s)) + length (sends (viaTask0 s))
       \<le> chan_cap"

definition inv_resp0 :: "Response0 list \<Rightarrow> config0 \<Rightarrow> bool" where
  "inv_resp0 rs s \<longleftrightarrow>
     set (resultChan0 s) \<union> set (sends (brasilTask0 s)) \<union> set (sends (viaTask0 s)) \<subseteq> set rs"

definition inv_console0 :: "string \<Rightarrow> Response0 list \<Rightarrow> config0 \<Rightarrow> bool" where
  "inv_console0 cep rs s \<longleftrightarrow>
     (mainPC0 s = S_Select \<longrightarrow> console0 s = [Searching cep]) \<and>
     (mainPC0 s = S_Exit \<longrightarrow>
        console0 s \<in> (\<lambda>lines. Searching cep # lines) ` insert [Timeout] (answer0 ` set rs))"

definition inv0 :: "string \<Rightarrow> Response0 list \<Rightarrow> config0 \<Rightarrow> bool" where
  "inv0 cep rs s \<longleftrightarrow> inv_chan0 s \<and> inv_resp0 rs s \<and> inv_console0 cep rs s"

lemmas inv0_defs [cep_inv] = inv0_def inv_chan0_def inv_resp0_def inv_console0_def


lemma inv0_init: "inv0 cep (responses0 w cep) (init0 w cep)"
  using fetch0_shape [of w cep]
  by (auto simp: inv0_defs init0_def responses0_def chan_cap_def)

lemma task_step0_inv_chan: "inv_chan0 s \<Longrightarrow> task_step0 t s = Next s' \<Longrightarrow> inv_chan0 s'"
  by (erule task_step0_cases; cases t)
    (simp_all add: inv_chan0_def task_sel0)

lemma task_step0_inv_resp: "inv_resp0 rs s \<Longrightarrow> task_step0 t s = Next s' \<Longrightarrow> inv_resp0 rs s'"
  by (erule task_step0_cases; cases t)
    (simp_all add: inv_resp0_def task_sel0)

lemma task_step0_inv_console:
  "inv_console0 cep rs s \<Longrightarrow> task_step0 t s = Next s' \<Longrightarrow> inv_console0 cep rs s'"
  by (erule task_step0_cases; cases t) (simp_all add: inv_console0_def task_sel0)

lemma task_step0_inv: "inv0 cep rs s \<Longrightarrow> task_step0 t s = Next s' \<Longrightarrow> inv0 cep rs s'"
  unfolding inv0_def
  by (blast intro: task_step0_inv_chan task_step0_inv_resp task_step0_inv_console)

lemma answer0_simps:
  "Error r = Some err \<Longrightarrow> answer0 r = [Api_Error (APIName r) err]"
  "Error r = None \<Longrightarrow> answer0 r = Fastest_Response (APIName r) None # print_address (Data r)"
  by (simp_all add: answer0_def)

lemma main_recv0_answer:
  assumes "main_recv0 s = Next s'"
  obtains r rest where "mainPC0 s = S_Select" "resultChan0 s = r # rest"
    "s' = s\<lparr>resultChan0 := rest, console0 := console0 s @ answer0 r, mainPC0 := S_Exit,
            ctxDone0 := True\<rparr>"
  using assms by (cases rule: main_recv0_cases) (auto simp: answer0_simps)

lemma main_recv0_inv: "inv0 cep rs s \<Longrightarrow> main_recv0 s = Next s' \<Longrightarrow> inv0 cep rs s'"
  by (erule main_recv0_answer) (auto simp: inv0_defs)

lemma main_ctx_done0_inv: "inv0 cep rs s \<Longrightarrow> main_ctx_done0 s = Next s' \<Longrightarrow> inv0 cep rs s'"
  by (auto simp: main_ctx_done0_Next inv0_defs)

lemma deadline0_inv: "inv0 cep rs s \<Longrightarrow> deadline0 s = Next s' \<Longrightarrow> inv0 cep rs s'"
  by (auto simp: deadline0_Next inv0_defs)

lemma step0_inv: "inv0 cep rs s \<Longrightarrow> step0 s l = Next s' \<Longrightarrow> inv0 cep rs s'"
  by (erule step0_cases)
    (blast intro: task_step0_inv main_recv0_inv main_ctx_done0_inv deadline0_inv)+

lemma reachable0_inv: "reachable0 w cep s \<Longrightarrow> inv0 cep (responses0 w cep) s"
  unfolding reachable0_def
  by (induction rule: reach_invariant) (auto intro: inv0_init step0_inv)


section \<open>Runs\<close>

definition after0 :: "config0 \<Rightarrow> label0 list \<Rightarrow> config0" where
  "after0 s ls = (case run0 s ls of Next s' \<Rightarrow> s' | _ \<Rightarrow> s)"

lemma reachable0_after: "reachable0 w cep s \<Longrightarrow> reachable0 w cep (after0 s ls)"
  by (auto simp: after0_def split: outcome.splits intro: reachable0_run)

lemmas reachable0_from_start = reachable0_after [OF reachable0_start]

lemmas eval_defs0 = after0_def init0_def step0_def cep_defs chan_cap_def world_defs Let_def

section \<open>Publishing never blocks\<close>

text \<open>
  C19. Publishing never blocks in \<open>part_000\<close>. While \<open>main\<close> has not returned, a lookup that
  has not finished can always take its next step: the channel has room for its response.
\<close>

theorem send0_never_blocks:
  assumes "reachable0 w cep s" and "mainPC0 s = S_Select" and "task_of0 t s \<noteq> []"
  shows "enabled (step0 s (Task0 t))"
proof -
  from assms(1) have "inv_chan0 s"
    using reachable0_inv [of w cep s] by (simp add: inv0_def)
  with assms(2,3) show ?thesis
    by (cases t; cases "task_of0 t s"; cases "hd (task_of0 t s)")
      (auto simp: step0_def task_defs0 inv_chan0_def)
qed

theorem send0_never_blocks_witness:
  "enabled (step0 (after0 (init0 world_both_ok ''01153000'') [Task0 Via]) (Task0 Brasil))"
  using send0_never_blocks [OF reachable0_from_start, of world_both_ok "''01153000''" "[Task0 Via]" Brasil]
  by (simp add: eval_defs0)

section \<open>The outcomes of a race\<close>

lemma set_outcomes0:
  "set (outcomes0 w cep) =
     (\<lambda>lines. Searching cep # lines) ` insert [Timeout] (answer0 ` set (responses0 w cep))"
  by (simp add: outcomes0_def image_image)

text \<open>
  C17. \<open>part_000\<close> prints one of three outcomes. When \<open>main\<close> has returned, the console
  holds the search line followed by the timeout line, or by the answer to the response
  of one of the two lookups: its error, or its API name and address.
\<close>

theorem race0_outcome_sound:
  assumes "reachable0 w cep s" and "mainPC0 s = S_Exit"
  shows "console0 s \<in> set (outcomes0 w cep)"
  using reachable0_inv [OF assms(1)] assms(2)
  by (simp add: inv0_def inv_console0_def set_outcomes0)

theorem race0_outcome_sound_witness:
  "console0 (after0 (init0 world_brasil_down ''01153000'') [Task0 Brasil, Recv0])
     \<in> set (outcomes0 world_brasil_down ''01153000'')"
  using race0_outcome_sound [OF reachable0_from_start,
      of world_brasil_down "''01153000''" "[Task0 Brasil, Recv0]"]
  by (simp add: eval_defs0)

lemma run0_timeout:
  "\<exists>s. run0 (init0 w cep) [Deadline0, Ctx_Done0] = Next s \<and> mainPC0 s = S_Exit
       \<and> console0 s = [Searching cep, Timeout]"
  by (simp add: init0_def step0_def main_defs0)

lemma run0_answer:
  assumes "task_of0 t (init0 w cep) = [Send r]"
  shows "\<exists>s. run0 (init0 w cep) [Task0 t, Recv0] = Next s \<and> mainPC0 s = S_Exit
            \<and> console0 s = Searching cep # answer0 r"
  using assms
  by (cases t; cases "Error r")
    (simp_all add: init0_def step0_def simple_defs chan_send_def chan_cap_def answer0_def)

text \<open>
  C18. Each of the three outcomes can happen. For every outcome there is a schedule after
  which \<open>main\<close> has returned with exactly these lines printed: the deadline first, or one
  lookup publishing before \<open>main\<close> receives.
\<close>

theorem race0_outcome_complete:
  assumes "c \<in> set (outcomes0 w cep)"
  shows "\<exists>ls s. run0 (init0 w cep) ls = Next s \<and> mainPC0 s = S_Exit \<and> console0 s = c"
proof -
  obtain rb rv where rb: "fetchBrasilAPI0 w cep = [Send rb]" and rv: "fetchViaCEP0 w cep = [Send rv]"
    using fetch0_shape [of w cep] by blast
  from assms consider "c = [Searching cep, Timeout]" | "c = Searching cep # answer0 rb"
    | "c = Searching cep # answer0 rv"
    by (auto simp: set_outcomes0 responses0_def rb rv)
  then show ?thesis
  proof cases
    case 1
    with run0_timeout [of w cep] show ?thesis by blast
  next
    case 2
    have "task_of0 Brasil (init0 w cep) = [Send rb]"
      by (simp add: task_of0_def init0_def rb)
    from run0_answer [OF this] 2 show ?thesis by blast
  next
    case 3
    have "task_of0 Via (init0 w cep) = [Send rv]"
      by (simp add: task_of0_def init0_def rv)
    from run0_answer [OF this] 3 show ?thesis by blast
  qed
qed

theorem race0_outcome_complete_witness:
  "\<exists>ls s. run0 (init0 world_both_ok ''01153000'') ls = Next s \<and> mainPC0 s = S_Exit
     \<and> console0 s = [Searching ''01153000'', Timeout]"
  using race0_outcome_complete [of "[Searching ''01153000'', Timeout]" world_both_ok "''01153000''"]
  by (simp add: outcomes0_def)

section \<open>Every run is finite\<close>

definition fuel0 :: "config0 \<Rightarrow> nat" where
  "fuel0 s =
     length (brasilTask0 s) + length (viaTask0 s) + of_bool (\<not> ctxDone0 s)
       + of_bool (mainPC0 s = S_Select)"

lemma step0_fuel: "step0 s l = Next s' \<Longrightarrow> fuel0 s' < fuel0 s"
proof (erule step0_cases)
  fix t assume "task_step0 t s = Next s'"
  then show ?thesis
    by (cases rule: task_step0_cases; cases t) (simp_all add: fuel0_def task_sel0)
next
  assume "main_recv0 s = Next s'"
  then show ?thesis by (cases rule: main_recv0_answer) (simp add: fuel0_def)
qed (auto simp: main_ctx_done0_Next deadline0_Next fuel0_def)

lemma run0_fuel: "run0 s ls = Next s' \<Longrightarrow> length ls + fuel0 s' \<le> fuel0 s"
  unfolding run0_def by (rule exec_measure [of step0 fuel0]) (rule step0_fuel)

text \<open>
  C24. Every run of \<open>part_000\<close> ends within four steps: one send per lookup, the deadline,
  and the one step of \<open>main\<close>.
\<close>

theorem race0_terminates:
  assumes "run0 (init0 w cep) ls = Next s"
  shows "length ls \<le> 4"
proof -
  have "fuel0 (init0 w cep) = 4"
    using fetch0_shape [of w cep] by (auto simp: fuel0_def init0_def)
  with run0_fuel [OF assms] show ?thesis by simp
qed

theorem race0_terminates_witness:
  "run0 (init0 world_both_ok ''01153000'') [Task0 Via, Task0 Brasil, Deadline0, Recv0]
     = Next (after0 (init0 world_both_ok ''01153000'') [Task0 Via, Task0 Brasil, Deadline0, Recv0])
   \<and> length [Task0 Via, Task0 Brasil, Deadline0, Recv0] \<le> 4"
proof -
  have r: "run0 (init0 world_both_ok ''01153000'') [Task0 Via, Task0 Brasil, Deadline0, Recv0]
     = Next (after0 (init0 world_both_ok ''01153000'') [Task0 Via, Task0 Brasil, Deadline0, Recv0])"
    by (simp add: eval_defs0)
  from race0_terminates [OF r] r show ?thesis by simp
qed

section \<open>The coordinator can always finish\<close>

definition give_up0 :: "config0 \<Rightarrow> label0 list" where
  "give_up0 s =
     (case mainPC0 s of
        S_Select \<Rightarrow> (if ctxDone0 s then [] else [Deadline0]) @ [Ctx_Done0]
      | S_Exit \<Rightarrow> [])"

text \<open>
  C25. \<open>main\<close> of \<open>part_000\<close> never hangs: from every configuration the deadline alone leads
  it to its return, whether or not a lookup ever answers.
\<close>

theorem coordinator0_can_always_exit:
  "\<exists>s'. run0 s (give_up0 s) = Next s' \<and> mainPC0 s' = S_Exit"
  by (cases "mainPC0 s") (simp_all add: give_up0_def step0_def main_defs0)

end
