(* ===== verification/Cep_Refine.thy ===== *)
theory Cep_Refine
  imports Cep_Race Cep_Simple
begin

text \<open>
  The program with timing (\<open>src/main.go\<close>) refines the basic one
  (\<open>src/unnamed/part_000\<close>): what the basic program would show of a configuration of the
  timed one is obtained by forgetting the wait group, the mutex, the timing table, the
  durations and the comparison lines of the console. Every step of the timed program is
  then a step of the basic one or invisible to it. After \<open>main\<close> has left its first
  \<open>select\<close> the basic program has returned, and the timed one only adds comparison lines.
\<close>

section \<open>What the basic program shows of a configuration\<close>

fun untimed_line :: "out_line \<Rightarrow> out_line" where
  "untimed_line (Fastest_Response n d) = Fastest_Response n None"
| "untimed_line l = l"

definition basic_console :: "out_line list \<Rightarrow> out_line list" where
  "basic_console c = map untimed_line (filter (\<lambda>l. \<not> compare_line l) c)"

definition untimed_prog :: "Response action list \<Rightarrow> Response0 action list" where
  "untimed_prog p = map (\<lambda>r. Send (untimed r)) (sends p)"

definition basic_of :: "config \<Rightarrow> config0" where
  "basic_of s =
     \<lparr>mainPC0 = (if mainPC s = M_Select then S_Select else S_Exit),
      brasilTask0 = untimed_prog (brasilTask s), viaTask0 = untimed_prog (viaTask s),
      resultChan0 = map untimed (resultChan s), ctxDone0 = ctxDone s,
      console0 = basic_console (console s)\<rparr>"

definition refines :: "config0 \<Rightarrow> config \<Rightarrow> bool" where
  "refines a c \<longleftrightarrow>
     (if mainPC c = M_Select then a = basic_of c
      else mainPC0 a = S_Exit \<and> console0 a = basic_console (console c))"

lemma basic_console_Nil [simp]: "basic_console [] = []"
  by (simp add: basic_console_def)

lemma basic_console_append [simp]:
  "basic_console (c @ c') = basic_console c @ basic_console c'"
  by (simp add: basic_console_def)

lemma basic_console_Cons:
  "basic_console (l # c) =
     (if compare_line l then basic_console c else untimed_line l # basic_console c)"
  by (simp add: basic_console_def)

lemma basic_console_address [simp]: "basic_console (print_address d) = print_address d"
  by (cases d) (simp_all add: basic_console_def)

lemma basic_console_compare [simp]: "compare_line l \<Longrightarrow> basic_console [l] = []"
  by (simp add: basic_console_def)

lemma untimed_prog_simps [simp]:
  "untimed_prog [] = []"
  "untimed_prog (Send r # p) = Send (untimed r) # untimed_prog p"
  "untimed_prog (Lock # p) = untimed_prog p"
  "untimed_prog (Store k d # p) = untimed_prog p"
  "untimed_prog (Unlock # p) = untimed_prog p"
  "untimed_prog (WgDone # p) = untimed_prog p"
  by (simp_all add: untimed_prog_def)

lemma untimed_fetch:
  "untimed_prog (fetchBrasilAPI w cep) = fetchBrasilAPI0 w cep"
  "untimed_prog (fetchViaCEP w cep) = fetchViaCEP0 w cep"
  by (simp_all add: lookup_defs untimed_def Let_def split: sum.splits)

lemma refines_init: "refines (init0 w cep) (init w cep)"
  by (simp add: refines_def basic_of_def init_def init0_def untimed_fetch basic_console_def)


section \<open>Steps of the timed program, seen by the basic one\<close>

lemma step_console_basic:
  assumes "inv pB pV c" and "step c l = Next c'" and "mainPC c \<noteq> M_Select"
  shows "basic_console (console c') = basic_console (console c)"
  using assms(2)
proof (cases rule: step_cases)
  case (Task t)
  then show ?thesis by (simp add: task_step_frame)
next
  case Recv
  with assms(3) show ?thesis by (auto elim: main_recv_cases)
next
  case Agg_Print
  with assms(1) show ?thesis by (auto simp: agg_print_Next inv_def inv_agg_def)
qed (use assms(3) in \<open>auto simp: op_Next basic_console_Cons\<close>)

lemma step_refines_after:
  assumes "inv pB pV c" and "step c l = Next c'" and "mainPC c \<noteq> M_Select" and "refines a c"
  shows "refines a c'"
  using step_back_to_select [OF assms(2)] step_console_basic [OF assms(1,2,3)] assms(3,4)
  by (auto simp: refines_def)

lemma task_step_refines:
  assumes "task_step t c = Next c'" and "mainPC c = M_Select"
  shows "basic_of c' = basic_of c \<or> step0 (basic_of c) (Task0 t) = Next (basic_of c')"
  using assms(1)
  by (cases rule: task_step_cases; cases t)
    (simp_all add: basic_of_def task_sel assms(2) step0_def task_defs0 chan_send_def)

lemma main_recv_refines:
  assumes "main_recv c = Next c'"
  shows "\<exists>a'. step0 (basic_of c) Recv0 = Next a' \<and> refines a' c'"
  using assms
  by (cases rule: main_recv_cases)
    (simp_all add: refines_def basic_of_def step0_def main_recv0_def basic_console_Cons)

lemma select_step_refines:
  assumes "inv pB pV c" and "mainPC c = M_Select" and "step c l = Next c'"
  shows "refines (basic_of c) c' \<or> (\<exists>m a'. step0 (basic_of c) m = Next a' \<and> refines a' c')"
  using assms(3)
proof (cases rule: step_cases)
  case (Task t)
  with task_step_refines [OF Task(2) assms(2)] assms(2) show ?thesis
    by (auto simp: refines_def task_step_frame)
next
  case Recv
  with main_recv_refines show ?thesis by blast
next
  case Deadline
  with assms(2) have "step0 (basic_of c) Deadline0 = Next (basic_of c')"
    by (auto simp: deadline_Next step0_def deadline0_def basic_of_def)
  moreover from Deadline assms(2) have "mainPC c' = M_Select" by (auto simp: deadline_Next)
  ultimately show ?thesis by (auto simp: refines_def)
next
  case Ctx_Done
  with assms(2) have "\<exists>a'. step0 (basic_of c) Ctx_Done0 = Next a' \<and> refines a' c'"
    by (auto simp: main_ctx_done_Next step0_def main_ctx_done0_def basic_of_def refines_def
        basic_console_Cons)
  then show ?thesis by blast
qed (use assms(1,2) in \<open>auto simp: op_Next inv_agg_def inv_def\<close>)

lemma step_refines:
  assumes "inv pB pV c" and "refines a c" and "step c l = Next c'"
  shows "refines a c' \<or> (\<exists>m a'. step0 a m = Next a' \<and> refines a' c')"
proof (cases "mainPC c = M_Select")
  case True
  with assms(2) have "a = basic_of c" by (simp add: refines_def)
  with select_step_refines [OF assms(1) True assms(3)] show ?thesis by simp
next
  case False
  with step_refines_after [OF assms(1,3) _ assms(2)] show ?thesis by simp
qed

lemma race_simulates:
  assumes "programs pB pV"
  shows "simulates (\<lambda>a c. refines a c \<and> inv pB pV c) step step0"
proof
  fix a c l c'
  assume "refines a c \<and> inv pB pV c" and s: "step c l = Next c'"
  then have r: "refines a c" and i: "inv pB pV c" by simp_all
  from step_inv [OF assms i s] step_refines [OF i r s]
  show "refines a c' \<and> inv pB pV c' \<or> (\<exists>m a'. step0 a m = Next a' \<and> refines a' c' \<and> inv pB pV c')"
    by blast
qed

lemma reachable_refines:
  assumes "reachable w cep c"
  shows "\<exists>a. reachable0 w cep a \<and> refines a c"
proof -
  have "inv (fetchBrasilAPI w cep) (fetchViaCEP w cep) (init w cep)"
    by (rule reachable_inv) simp
  from simulates_reach_inv [OF race_simulates [OF programs_fetch] refines_init this]
    assms show ?thesis
    unfolding reachable_def reachable0_def .
qed


section \<open>Schedules of the timed program for each outcome\<close>

lemma run_timeout:
  "\<exists>s. run (init w cep) [Deadline, Ctx_Done] = Next s \<and> mainPC s \<noteq> M_Select
       \<and> basic_console (console s) = [Searching cep, Timeout]"
  by (simp add: init_def step_def main_defs timer_defs basic_console_Cons)

lemma run_answer:
  assumes "task_prog n (task_of t (init w cep))" and "sends (task_of t (init w cep)) = [r]"
  shows "\<exists>ls s. run (init w cep) ls = Next s \<and> mainPC s \<noteq> M_Select
           \<and> basic_console (console s) = Searching cep # answer0 (untimed r)"
  using assms(1)
proof (cases rule: task_prog_cases)
  case (failure r')
  with assms(2) have r: "r' = r" by simp
  from failure(1) r have "\<exists>s. run (init w cep) [Task t, Recv] = Next s \<and> mainPC s \<noteq> M_Select
           \<and> basic_console (console s) = Searching cep # answer0 (untimed r)"
    using failure
    by (cases t; cases "Error r")
      (auto simp: init_def step_def race_defs chan_send_def chan_cap_def basic_console_Cons
        answer0_simps)
  then show ?thesis by blast
next
  case (success r')
  with assms(2) have r: "r' = r" by simp
  from success(1) r have "\<exists>s. run (init w cep) [Task t, Task t, Task t, Task t, Recv] = Next s
           \<and> mainPC s \<noteq> M_Select
           \<and> basic_console (console s) = Searching cep # answer0 (untimed r)"
    using success
    by (cases t; cases "Error r")
      (auto simp: init_def step_def race_defs chan_send_def chan_cap_def mu_lock_def mu_unlock_def
        basic_console_Cons answer0_simps)
  then show ?thesis by blast
qed


end
