(* ===== verification/Cep_Console.thy ===== *)
theory Cep_Console
  imports Cep_Race
begin

text \<open>
  What \<open>src/main.go\<close> prints, as a specification and its proof: \<open>timed_outcomes\<close> lists
  the consoles a race may show once \<open>main\<close> has left its first \<open>select\<close>, computed from
  what the two lookups publish and store. The invariant \<open>inv_console\<close> ties the console
  to the program counters of \<open>main\<close> and of the comparison routine; with it every
  reachable console is one of the list. Conversely, each console of the list is printed
  by a schedule that is constructed from the list's own parameters. Two further sections say when the two lines
  outside an answer appear: the timeout line only after the deadline has expired and
  \<open>main\<close> has received nothing (an invariant of schedules, \<open>timeout_history\<close>), the
  usage line only when the program was started without a postal code.
\<close>

section \<open>The consoles the program promises\<close>

definition answer :: "Response \<Rightarrow> out_line list" where
  "answer r =
     (case Error r of
        Some err \<Rightarrow> [Api_Error (APIName r) err]
      | None \<Rightarrow> Fastest_Response (APIName r) (Some (Duration r)) # print_address (Data r))"

definition responses :: "world \<Rightarrow> string \<Rightarrow> Response list" where
  "responses w cep = sends (fetchBrasilAPI w cep) @ sends (fetchViaCEP w cep)"

definition timings :: "world \<Rightarrow> string \<Rightarrow> (api_name \<times> duration) list" where
  "timings w cep = stores (fetchBrasilAPI w cep) @ stores (fetchViaCEP w cep)"

definition blocks :: "(api_name \<times> duration) list \<Rightarrow> out_line list list" where
  "blocks tr =
     concat (map (\<lambda>it1. map (\<lambda>it2. Compare_Header # report tr it1 it2) (orders tr)) (orders tr))"

definition comparisons :: "(api_name \<times> duration) list \<Rightarrow> out_line list list" where
  "comparisons tr = concat (map prefixes (blocks tr))"

definition endings :: "(api_name \<times> duration) list \<Rightarrow> Response \<Rightarrow> out_line list list" where
  "endings tr r =
     (case Error r of
        Some _ \<Rightarrow> [answer r]
      | None \<Rightarrow> map (\<lambda>cmp. answer r @ cmp) (comparisons tr))"

definition timed_outcomes :: "world \<Rightarrow> string \<Rightarrow> out_line list list" where
  "timed_outcomes w cep =
     map (\<lambda>lines. Searching cep # lines)
       ([Timeout] # concat (map (endings (timings w cep)) (responses w cep)))"

lemma answer_simps:
  "Error r = Some err \<Longrightarrow> answer r = [Api_Error (APIName r) err]"
  "Error r = None \<Longrightarrow>
     answer r = Fastest_Response (APIName r) (Some (Duration r)) # print_address (Data r)"
  by (simp_all add: answer_def)

lemma in_blocks:
  "b \<in> set (blocks tr) \<longleftrightarrow>
     (\<exists>it1 \<in> set (orders tr). \<exists>it2 \<in> set (orders tr). b = Compare_Header # report tr it1 it2)"
  by (auto simp: blocks_def)

lemma in_comparisons: "cmp \<in> set (comparisons tr) \<longleftrightarrow> (\<exists>b \<in> set (blocks tr). prefix cmp b)"
  by (auto simp: comparisons_def in_set_prefixes)

lemma report_length_cong:
  "length tr = length tr' \<Longrightarrow> report tr it1 it2 = report tr' it1 it2"
  by (simp add: report_def)

lemma report_in_blocks:
  assumes "length tr \<le> 2" and "mset t = mset tr" and "mset it1 = mset t" and "mset it2 = mset t"
  shows "Compare_Header # report t it1 it2 \<in> set (blocks tr)"
proof -
  from assms have "it1 \<in> set (orders tr)" "it2 \<in> set (orders tr)"
    by (simp_all add: mset_eq_orders)
  moreover from assms(2) have "report t it1 it2 = report tr it1 it2"
    by (intro report_length_cong mset_eq_length)
  ultimately show ?thesis by (auto simp: in_blocks)
qed


section \<open>The console invariant\<close>

definition inv_resp :: "Response list \<Rightarrow> config \<Rightarrow> bool" where
  "inv_resp rs s \<longleftrightarrow>
     set (resultChan s) \<union> set (sends (brasilTask s)) \<union> set (sends (viaTask s)) \<subseteq> set rs"

definition agg_printed :: "(api_name \<times> duration) list \<Rightarrow> agg_pc \<Rightarrow> out_line list \<Rightarrow> bool" where
  "agg_printed tr pc cmp \<longleftrightarrow>
     (pc = A_Wait \<longrightarrow> cmp = []) \<and>
     (pc = A_Lock \<or> pc = A_Report \<longrightarrow> cmp = [Compare_Header]) \<and>
     (\<forall>ls. pc = A_Print ls \<longrightarrow> cmp @ ls \<in> set (blocks tr)) \<and>
     (pc = A_Done \<longrightarrow> cmp \<in> set (blocks tr))"

definition inv_console :: "string \<Rightarrow> Response list \<Rightarrow> (api_name \<times> duration) list \<Rightarrow> config \<Rightarrow> bool" where
  "inv_console cep rs tr s \<longleftrightarrow>
     (mainPC s = M_Select \<longrightarrow> console s = [Searching cep] \<and> aggPC s = A_Idle) \<and>
     (mainPC s \<noteq> M_Select \<and> aggPC s = A_Idle \<longrightarrow>
        console s = [Searching cep, Timeout] \<or>
        (\<exists>r \<in> set rs. Error r \<noteq> None \<and> console s = Searching cep # answer r)) \<and>
     (aggPC s \<noteq> A_Idle \<longrightarrow>
        (\<exists>r \<in> set rs. \<exists>cmp. Error r = None \<and> console s = Searching cep # answer r @ cmp
           \<and> agg_printed tr (aggPC s) cmp))"

lemma inv_console_started [consumes 2, case_names printed]:
  assumes "inv_console cep rs tr s" and "aggPC s \<noteq> A_Idle"
  obtains r cmp where "r \<in> set rs" "Error r = None" "mainPC s \<noteq> M_Select"
    "console s = Searching cep # answer r @ cmp" "agg_printed tr (aggPC s) cmp"
  using assms unfolding inv_console_def by blast

lemma inv_console_startedI:
  assumes "mainPC s \<noteq> M_Select" and "aggPC s \<noteq> A_Idle" and "r \<in> set rs" and "Error r = None"
    and "console s = Searching cep # answer r @ cmp" and "agg_printed tr (aggPC s) cmp"
  shows "inv_console cep rs tr s"
  using assms unfolding inv_console_def by blast

lemma task_step_inv_resp:
  "inv_resp rs s \<Longrightarrow> task_step t s = Next s' \<Longrightarrow> inv_resp rs s'"
  by (erule task_step_cases; cases t) (simp_all add: inv_resp_def task_sel)

lemma step_inv_resp:
  assumes "inv_resp rs s" and "step s l = Next s'"
  shows "inv_resp rs s'"
  using assms(2)
proof (cases rule: step_cases)
  case (Task t)
  with assms(1) show ?thesis by (simp add: task_step_inv_resp)
next
  case Recv
  from Recv(2) show ?thesis using assms(1)
    by (cases rule: main_recv_cases) (simp_all add: inv_resp_def)
qed (use assms(1) in \<open>auto simp: op_Next inv_resp_def\<close>)

lemma inv_resp_init: "inv_resp (responses w cep) (init w cep)"
  by (simp add: inv_resp_def init_def responses_def)

lemma inv_console_cong:
  assumes "console s' = console s" and "aggPC s' = aggPC s"
    and "mainPC s' = M_Select \<longleftrightarrow> mainPC s = M_Select"
  shows "inv_console cep rs tr s' = inv_console cep rs tr s"
  using assms by (simp add: inv_console_def)

lemma main_recv_inv_console:
  assumes "inv_resp rs s" and "inv_console cep rs tr s" and "main_recv s = Next s'"
  shows "inv_console cep rs tr s'"
  using assms(3)
proof (cases rule: main_recv_cases)
  case (Error r rest err)
  with assms(1,2) have "r \<in> set rs" "aggPC s = A_Idle" "console s = [Searching cep]"
    by (auto simp: inv_resp_def inv_console_def)
  with Error show ?thesis by (auto simp: inv_console_def answer_simps)
next
  case (Ok r rest)
  with assms(1,2) have "r \<in> set rs" "console s = [Searching cep]"
    by (auto simp: inv_resp_def inv_console_def)
  with Ok show ?thesis
    by (intro inv_console_startedI [where r = r and cmp = "[]"])
      (simp_all add: answer_simps agg_printed_def)
qed

lemma main_ctx_done_inv_console:
  "inv_console cep rs tr s \<Longrightarrow> main_ctx_done s = Next s' \<Longrightarrow> inv_console cep rs tr s'"
  by (clarsimp simp: main_ctx_done_Next inv_console_def)

text \<open>The steps of the comparison routine extend what it has printed.\<close>

lemma agg_step_inv_console:
  assumes "inv_console cep rs tr s" and "aggPC s \<noteq> A_Idle"
    and "mainPC s' = mainPC s" and "aggPC s' \<noteq> A_Idle" and "console s' = console s @ new"
    and "\<And>cmp. agg_printed tr (aggPC s) cmp \<Longrightarrow> agg_printed tr (aggPC s') (cmp @ new)"
  shows "inv_console cep rs tr s'"
  using assms(1,2)
proof (cases rule: inv_console_started)
  case (printed r cmp)
  with assms(3-6) show ?thesis
    by (intro inv_console_startedI [where r = r and cmp = "cmp @ new"]) simp_all
qed

lemma agg_wait_inv_console:
  "inv_console cep rs tr s \<Longrightarrow> agg_wait s = Next s' \<Longrightarrow> inv_console cep rs tr s'"
  by (erule agg_step_inv_console [where new = "[Compare_Header]"])
    (auto simp: agg_wait_Next agg_printed_def)

lemma agg_lock_inv_console:
  "inv_console cep rs tr s \<Longrightarrow> agg_lock s = Next s' \<Longrightarrow> inv_console cep rs tr s'"
  by (erule agg_step_inv_console [where new = "[]"]) (auto simp: agg_lock_Next agg_printed_def)

lemma agg_report_inv_console:
  assumes "inv pB pV s" and "length tr \<le> 2" and "mset tr = mset (stores pB) + mset (stores pV)"
    and "inv_console cep rs tr s" and "agg_report it1 it2 s = Next s'"
  shows "inv_console cep rs tr s'"
proof -
  from assms(5) have a: "aggPC s = A_Report" "mset it1 = mset (timingResults s)"
    "mset it2 = mset (timingResults s)"
    "s' = s\<lparr>aggPC := A_Print (report (timingResults s) it1 it2)\<rparr>"
    by (simp_all add: agg_report_Next)
  from a(1) assms(1,3) have "mset (timingResults s) = mset tr"
    by (simp add: inv_unfold)
  note b = report_in_blocks [OF assms(2) this a(2,3)]
  from assms(4) show ?thesis
    by (rule agg_step_inv_console [where new = "[]"]) (auto simp: a b agg_printed_def)
qed

lemma agg_print_inv_console:
  assumes "inv_console cep rs tr s" and "agg_print s = Next s'"
  shows "inv_console cep rs tr s'"
proof -
  from assms(2) obtain l ls where a: "aggPC s = A_Print (l # ls)"
    "s' = s\<lparr>console := console s @ [l], aggPC := A_Print ls\<rparr>"
    by (auto simp: agg_print_Next)
  from assms(1) show ?thesis
    by (rule agg_step_inv_console [where new = "[l]"]) (auto simp: a agg_printed_def)
qed

lemma agg_unlock_inv_console:
  "inv_console cep rs tr s \<Longrightarrow> agg_unlock s = Next s' \<Longrightarrow> inv_console cep rs tr s'"
  by (erule agg_step_inv_console [where new = "[]"]) (auto simp: agg_unlock_Next agg_printed_def)

lemma op_frame_console:
  "deadline s = Next s' \<Longrightarrow> inv_console cep rs tr s' = inv_console cep rs tr s"
  "timer_fires s = Next s' \<Longrightarrow> inv_console cep rs tr s' = inv_console cep rs tr s"
  "main_drain s = Next s' \<Longrightarrow> inv_console cep rs tr s' = inv_console cep rs tr s"
  "main_drain_timeout s = Next s' \<Longrightarrow> inv_console cep rs tr s' = inv_console cep rs tr s"
  "main_wake s = Next s' \<Longrightarrow> inv_console cep rs tr s' = inv_console cep rs tr s"
  "task_step t s = Next s' \<Longrightarrow> inv_console cep rs tr s' = inv_console cep rs tr s"
  by (rule inv_console_cong; auto simp: op_Next task_step_frame)+

lemma step_inv_console:
  assumes "inv pB pV s" and "inv_resp rs s"
    and "length tr \<le> 2" and "mset tr = mset (stores pB) + mset (stores pV)"
    and "inv_console cep rs tr s" and "step s l = Next s'"
  shows "inv_console cep rs tr s'"
  using assms(6)
proof (cases rule: step_cases)
  case Recv
  with assms show ?thesis by (blast intro: main_recv_inv_console)
next
  case Ctx_Done
  with assms show ?thesis by (blast intro: main_ctx_done_inv_console)
next
  case Agg_Wait
  with assms show ?thesis by (blast intro: agg_wait_inv_console)
next
  case Agg_Lock
  with assms show ?thesis by (blast intro: agg_lock_inv_console)
next
  case (Agg_Report it1 it2)
  with assms show ?thesis by (blast intro: agg_report_inv_console)
next
  case Agg_Print
  with assms show ?thesis by (blast intro: agg_print_inv_console)
next
  case Agg_Unlock
  with assms show ?thesis by (blast intro: agg_unlock_inv_console)
qed (use assms(5) in \<open>simp_all add: op_frame_console\<close>)


lemma timings_length: "length (timings w cep) \<le> 2"
  using task_prog_stores_length [OF fetchBrasilAPI_task_prog, of w cep]
    task_prog_stores_length [OF fetchViaCEP_task_prog, of w cep]
  by (simp add: timings_def)

lemma inv_console_init: "inv_console cep rs tr (init w cep)"
  by (simp add: inv_console_def init_def)

lemma reachable_console:
  assumes "reachable w cep s"
  shows "inv_resp (responses w cep) s \<and> inv_console cep (responses w cep) (timings w cep) s"
proof -
  let ?I = "\<lambda>s. inv (fetchBrasilAPI w cep) (fetchViaCEP w cep) s
    \<and> inv_resp (responses w cep) s \<and> inv_console cep (responses w cep) (timings w cep) s"
  from assms have "reach step (init w cep) s" by (simp add: reachable_def)
  then have "?I s"
  proof (induction rule: reach_invariant)
    case start
    show ?case
      using reachable_inv [OF reachable_start, of w cep]
      by (simp add: inv_resp_init inv_console_init)
  next
    case (step s l s')
    then show ?case
      using timings_length [of w cep]
      by (auto simp: timings_def
          intro: step_inv [OF programs_fetch] step_inv_resp step_inv_console)
  qed
  then show ?thesis by simp
qed

section \<open>Every console is one the program promises\<close>

lemma blocks_nonempty: "blocks tr \<noteq> []"
  by (simp add: blocks_def orders_def)

lemma header_prefix_block: "b \<in> set (blocks tr) \<Longrightarrow> prefix [Compare_Header] b"
  by (auto simp: in_blocks)

lemma agg_printed_comparisons:
  assumes "agg_printed tr pc cmp" and "pc \<noteq> A_Idle"
  shows "cmp \<in> set (comparisons tr)"
proof -
  obtain b where b: "b \<in> set (blocks tr)"
    using blocks_nonempty [of tr] by (cases "blocks tr") auto
  note h = header_prefix_block [OF b]
  show ?thesis
  proof (cases pc)
    case (A_Print ls)
    with assms(1) have "cmp @ ls \<in> set (blocks tr)" by (simp add: agg_printed_def)
    then show ?thesis unfolding in_comparisons by (blast intro: prefixI)
  qed (use assms b h in \<open>auto simp: agg_printed_def in_comparisons\<close>)
qed

lemma in_endings:
  "e \<in> set (endings tr r) \<longleftrightarrow>
     (Error r \<noteq> None \<and> e = answer r) \<or>
     (Error r = None \<and> (\<exists>cmp \<in> set (comparisons tr). e = answer r @ cmp))"
  by (cases "Error r") (auto simp: endings_def)

lemma in_timed_outcomes:
  "c \<in> set (timed_outcomes w cep) \<longleftrightarrow>
     c = [Searching cep, Timeout] \<or>
     (\<exists>r \<in> set (responses w cep).
        (Error r \<noteq> None \<and> c = Searching cep # answer r) \<or>
        (Error r = None \<and> (\<exists>cmp \<in> set (comparisons (timings w cep)).
           c = Searching cep # answer r @ cmp)))"
proof -
  have "c \<in> set (timed_outcomes w cep) \<longleftrightarrow>
      (\<exists>e. c = Searching cep # e \<and>
         (e = [Timeout] \<or> (\<exists>r \<in> set (responses w cep). e \<in> set (endings (timings w cep) r))))"
    by (auto simp: timed_outcomes_def)
  then show ?thesis unfolding in_endings by blast
qed

text \<open>
  C6. The timed program prints what it promises and nothing else. Once \<open>main\<close> has left
  its first \<open>select\<close>, the console is the search line followed by the timeout line, or
  by the error of one lookup, or by the name, duration and address of a successful
  lookup and a beginning of a comparison block for the two programs' timing entries.
\<close>

theorem timed_console_spec:
  assumes "reachable w cep s" and "mainPC s \<noteq> M_Select"
  shows "console s \<in> set (timed_outcomes w cep)"
proof (cases "aggPC s = A_Idle")
  case True
  with reachable_console [OF assms(1)] assms(2) show ?thesis
    unfolding inv_console_def in_timed_outcomes by blast
next
  case False
  from reachable_console [OF assms(1)] have "inv_console cep (responses w cep) (timings w cep) s"
    by simp
  then show ?thesis using False
  proof (cases rule: inv_console_started)
    case (printed r cmp)
    with agg_printed_comparisons [OF printed(5) False] show ?thesis
      unfolding in_timed_outcomes by blast
  qed
qed

theorem timed_console_spec_witness:
  "console (after (init world_both_ok ''01153000'')
     [Task Via, Task Via, Task Via, Task Via, Recv, Task Via, Task Brasil, Task Brasil,
      Task Brasil, Task Brasil, Task Brasil, Agg_Wait, Agg_Lock,
      Agg_Report [(''ViaCEP'', 80), (''BrasilAPI'', 120)] [(''BrasilAPI'', 120), (''ViaCEP'', 80)],
      Agg_Print, Agg_Print, Agg_Print])
   \<in> set (timed_outcomes world_both_ok ''01153000'')"
  using timed_console_spec [OF reachable_from_start, of world_both_ok "''01153000''"
     "[Task Via, Task Via, Task Via, Task Via, Recv, Task Via, Task Brasil, Task Brasil,
      Task Brasil, Task Brasil, Task Brasil, Agg_Wait, Agg_Lock,
      Agg_Report [(''ViaCEP'', 80), (''BrasilAPI'', 120)] [(''BrasilAPI'', 120), (''ViaCEP'', 80)],
      Agg_Print, Agg_Print, Agg_Print]"]
  by (simp add: eval_defs)

text \<open>
  C15. A finished comparison is a whole block. When the comparison routine has returned,
  the console ends with a complete comparison block for the timing entries of the two
  programs, after the answer to a successful lookup.
\<close>

theorem finished_comparison_is_whole_block:
  assumes "reachable w cep s" and "aggPC s = A_Done"
  shows "\<exists>r \<in> set (responses w cep). \<exists>b \<in> set (blocks (timings w cep)).
           Error r = None \<and> console s = Searching cep # answer r @ b"
proof -
  from reachable_console [OF assms(1)] have "inv_console cep (responses w cep) (timings w cep) s"
    by simp
  moreover from assms(2) have "aggPC s \<noteq> A_Idle" by simp
  ultimately show ?thesis
    using assms(2) by (cases rule: inv_console_started) (auto simp: agg_printed_def)
qed

theorem finished_comparison_is_whole_block_witness:
  "\<exists>r \<in> set (responses world_brasil_down ''01153000'').
     \<exists>b \<in> set (blocks (timings world_brasil_down ''01153000'')).
       Error r = None \<and>
       console (after (init world_brasil_down ''01153000'')
         [Task Via, Task Via, Task Via, Task Via, Recv, Task Via, Task Brasil, Task Brasil,
          Agg_Wait, Agg_Lock, Agg_Report [(''ViaCEP'', 80)] [(''ViaCEP'', 80)], Agg_Print,
          Agg_Unlock])
       = Searching ''01153000'' # answer r @ b"
  using finished_comparison_is_whole_block [OF reachable_from_start,
      of world_brasil_down "''01153000''"
        "[Task Via, Task Via, Task Via, Task Via, Recv, Task Via, Task Brasil, Task Brasil,
          Agg_Wait, Agg_Lock, Agg_Report [(''ViaCEP'', 80)] [(''ViaCEP'', 80)], Agg_Print,
          Agg_Unlock]"]
  by (simp add: eval_defs)

section \<open>Every promised console is printed by some schedule\<close>

text \<open>
  The converse: the list promises nothing the program cannot print. The schedule for a
  console runs the winning task up to its send, lets \<open>main\<close> receive, runs both tasks to
  their ends, and lets the comparison routine read the table in the two orders of the
  block and print as many lines as the console has.
\<close>

lemma orders_mset: "it \<in> set (orders tr) \<Longrightarrow> mset it = mset tr"
  by (auto simp: orders_def)

text \<open>
  When both tasks have finished and the comparison routine waits, it can print its
  header and any beginning of the block for any two iteration orders.
\<close>

lemma run_comparison:
  assumes "reachable w cep s" and "mainPC s \<noteq> M_Exit" and "aggPC s = A_Wait"
    and "brasilTask s = []" and "viaTask s = []"
    and "it1 \<in> set (orders (timings w cep))" and "it2 \<in> set (orders (timings w cep))"
    and "prefix cmp (report (timings w cep) it1 it2)"
  shows "\<exists>ls s'. run s ls = Next s' \<and> mainPC s' = mainPC s
           \<and> console s' = console s @ Compare_Header # cmp"
proof -
  let ?tr = "timings w cep"
  note i = reachable_inv [OF assms(1)]
  from i assms(3-5) have tbl: "mset (timingResults s) = mset ?tr"
    by (simp add: inv_unfold timings_def)
  then have len: "length (timingResults s) = length ?tr" by (rule mset_eq_length)
  from assms(8) obtain rest where r: "report ?tr it1 it2 = cmp @ rest"
    by (auto simp: prefix_def)
  let ?s1 = "s\<lparr>console := console s @ [Compare_Header], aggPC := A_Lock\<rparr>"
  let ?s2 = "?s1\<lparr>timingMutex := True, aggPC := A_Report\<rparr>"
  let ?s3 = "?s2\<lparr>aggPC := A_Print (cmp @ rest)\<rparr>"
  from i assms(2-5) have "run s [Agg_Wait, Agg_Lock] = Next ?s2"
    by (simp add: step_def agg_wait_def agg_lock_def wg_wait_def mu_lock_def inv_unfold)
  moreover from assms(2,6,7) tbl have "run ?s2 [Agg_Report it1 it2] = Next ?s3"
    by (simp add: step_def agg_report_def orders_mset
        report_length_cong [OF len] r [symmetric])
  moreover from assms(2) have "run ?s3 (replicate (length cmp) Agg_Print)
      = Next (?s3\<lparr>console := console ?s3 @ cmp, aggPC := A_Print rest\<rparr>)"
    by (intro run_agg_print) simp_all
  ultimately have "run s ([Agg_Wait, Agg_Lock] @ [Agg_Report it1 it2]
      @ replicate (length cmp) Agg_Print)
      = Next (?s3\<lparr>console := console ?s3 @ cmp, aggPC := A_Print rest\<rparr>)"
    by (blast intro: run_trans)
  then show ?thesis by (intro exI conjI) (assumption, simp_all)
qed

text \<open>One task publishes and \<open>main\<close> receives its response before anything else happens.\<close>

lemma run_winner:
  assumes "sends (task_of t (init w cep)) = [r]"
  obtains ls s where "run (init w cep) ls = Next s" "mainPC s \<noteq> M_Select"
    "console s = Searching cep # answer r"
    "Error r = None \<longrightarrow> mainPC s = M_Drain \<and> aggPC s = A_Wait \<and> task_of t s = [WgDone]
       \<and> task_of (other t) s = task_of (other t) (init w cep)"
proof -
  let ?p = "task_of t (init w cep)"
  note pos = task_prog_send_position [OF init_task_prog assms]
  have i0: "inv (fetchBrasilAPI w cep) (fetchViaCEP w cep) (init w cep)"
    by (rule reachable_inv) simp
  have m0: "mainPC (init w cep) \<noteq> M_Exit" by (simp add: init_sel)
  have h0: "\<not> holds (task_of (other t) (init w cep))"
    by (rule task_prog_not_holds [OF init_task_prog])
  from run_task_steps [OF programs_fetch i0 m0 pos(3) h0]
  obtain s1 where r1: "run (init w cep) (replicate (length ?p - Suc 0) (Task t)) = Next s1"
    and f: "task_of t s1 = drop (length ?p - Suc 0) ?p"
      "task_of (other t) s1 = task_of (other t) (init w cep)"
      "mainPC s1 = mainPC (init w cep)" "aggPC s1 = aggPC (init w cep)"
      "console s1 = console (init w cep)"
      "resultChan s1 = resultChan (init w cep) @ sends (take (length ?p - Suc 0) ?p)"
    by blast
  from f have s1: "task_of t s1 = [WgDone]"
    "task_of (other t) s1 = task_of (other t) (init w cep)"
    "mainPC s1 = M_Select" "aggPC s1 = A_Idle" "console s1 = [Searching cep]"
    "resultChan s1 = [r]"
    by (simp_all add: pos init_sel)
  obtain s2 where r2: "run s1 [Recv] = Next s2" and f2: "mainPC s2 \<noteq> M_Select"
    "console s2 = Searching cep # answer r"
    "Error r = None \<longrightarrow> mainPC s2 = M_Drain \<and> aggPC s2 = A_Wait \<and> task_of t s2 = task_of t s1
       \<and> task_of (other t) s2 = task_of (other t) s1"
    using s1(3,5,6)
    by (cases "Error r")
      (simp_all add: step_def main_recv_def chan_recv_def answer_simps task_of_def
        split: task_id.splits)
  from run_trans [OF r1 r2] f2 s1(1,2) show ?thesis by (intro that) simp_all
qed

lemma responses_cases:
  assumes "r \<in> set (responses w cep)"
  obtains t where "sends (task_of t (init w cep)) = [r]"
proof -
  from task_prog_sends [OF fetchBrasilAPI_task_prog, of w cep]
    task_prog_sends [OF fetchViaCEP_task_prog, of w cep] assms
  have "sends (task_of Brasil (init w cep)) = [r] \<or> sends (task_of Via (init w cep)) = [r]"
    by (auto simp: responses_def task_of_def init_def)
  with that show ?thesis by blast
qed

lemma comparisons_cases:
  assumes "cmp \<in> set (comparisons tr)"
  obtains "cmp = []"
  | it1 it2 cmp' where "it1 \<in> set (orders tr)" "it2 \<in> set (orders tr)"
      "cmp = Compare_Header # cmp'" "prefix cmp' (report tr it1 it2)"
  using assms by (auto simp: in_comparisons in_blocks prefix_Cons)

text \<open>
  After a successful first response both tasks can run to their ends, and the
  comparison routine can then print any beginning of any block.
\<close>

lemma run_success:
  assumes "sends (task_of t (init w cep)) = [r]" and "Error r = None"
    and "it1 \<in> set (orders (timings w cep))" and "it2 \<in> set (orders (timings w cep))"
    and "prefix cmp (report (timings w cep) it1 it2)"
  shows "\<exists>ls s. run (init w cep) ls = Next s \<and> mainPC s \<noteq> M_Select
           \<and> console s = Searching cep # answer r @ Compare_Header # cmp"
proof -
  from assms(1) obtain ls2 s2 where r2: "run (init w cep) ls2 = Next s2"
    and "mainPC s2 \<noteq> M_Select" and c2: "console s2 = Searching cep # answer r"
    and "Error r = None \<longrightarrow> mainPC s2 = M_Drain \<and> aggPC s2 = A_Wait \<and> task_of t s2 = [WgDone]
       \<and> task_of (other t) s2 = task_of (other t) (init w cep)"
    by (rule run_winner)
  with assms(2) have f2: "mainPC s2 = M_Drain" "aggPC s2 = A_Wait" "task_of t s2 = [WgDone]"
    "task_of (other t) s2 = task_of (other t) (init w cep)"
    by simp_all
  from r2 have re2: "reachable w cep s2" by (auto simp: reachable_iff_run)
  have m2: "mainPC s2 \<noteq> M_Exit" and h2: "\<not> holds (task_of (other t) s2)"
    by (simp_all add: f2 task_prog_not_holds [OF init_task_prog])
  from re2 m2 h2 obtain s3 where r3: "run s2 (replicate (length (task_of t s2)) (Task t)) = Next s3"
    and f3: "task_of t s3 = []" "task_of (other t) s3 = task_of (other t) s2"
      "mainPC s3 = mainPC s2" "aggPC s3 = aggPC s2" "console s3 = console s2"
    by (rule run_task_to_end)
  note re3 = reachable_run [OF re2 r3]
  have m3: "mainPC s3 \<noteq> M_Exit" and h3: "\<not> holds (task_of (other (other t)) s3)"
    by (simp_all add: f2 f3)
  from re3 m3 h3 obtain s4
    where r4: "run s3 (replicate (length (task_of (other t) s3)) (Task (other t))) = Next s4"
    and f4: "task_of (other t) s4 = []" "task_of (other (other t)) s4 = task_of (other (other t)) s3"
      "mainPC s4 = mainPC s3" "aggPC s4 = aggPC s3" "console s4 = console s3"
    by (rule run_task_to_end)
  note re4 = reachable_run [OF re3 r4]
  from f3(1) f4(1,2) have t4: "brasilTask s4 = []" "viaTask s4 = []"
    by (cases t; simp add: task_of_def)+
  have m4: "mainPC s4 \<noteq> M_Exit" and a4: "aggPC s4 = A_Wait"
    by (simp_all add: f2 f3 f4)
  from run_comparison [OF re4 m4 a4 t4 assms(3-5)] obtain ls5 s5
    where r5: "run s4 ls5 = Next s5" and f5: "mainPC s5 = mainPC s4"
      "console s5 = console s4 @ Compare_Header # cmp"
    by blast
  from run_trans [OF run_trans [OF run_trans [OF r2 r3] r4] r5]
  have "run (init w cep) (((ls2 @ replicate (length (task_of t s2)) (Task t))
      @ replicate (length (task_of (other t) s3)) (Task (other t))) @ ls5) = Next s5" .
  moreover have "mainPC s5 \<noteq> M_Select" "console s5 = Searching cep # answer r @ Compare_Header # cmp"
    by (simp_all add: f5 f4 f3 f2 c2)
  ultimately show ?thesis by blast
qed

lemmas console_defs = timed_outcomes_def endings_def comparisons_def blocks_def orders_def
  responses_def timings_def answer_def

text \<open>
  C7. The timed program can print everything it promises. For every console in the list
  \<open>timed_outcomes\<close> there is a schedule from the start of the race after which \<open>main\<close>
  has left its first \<open>select\<close> and the console is exactly that one: the timeout, the
  error of either lookup, or the answer of either successful lookup followed by any
  beginning of the comparison block in any iteration order of the table.
\<close>

theorem timed_console_spec_complete:
  assumes "c \<in> set (timed_outcomes w cep)"
  shows "\<exists>ls s. run (init w cep) ls = Next s \<and> mainPC s \<noteq> M_Select \<and> console s = c"
proof -
  from assms consider "c = [Searching cep, Timeout]"
    | r where "r \<in> set (responses w cep)" "Error r \<noteq> None" "c = Searching cep # answer r"
    | r cmp where "r \<in> set (responses w cep)" "Error r = None"
        "cmp \<in> set (comparisons (timings w cep))" "c = Searching cep # answer r @ cmp"
    unfolding in_timed_outcomes by blast
  then show ?thesis
  proof cases
    case 1
    have "run (init w cep) [Deadline, Ctx_Done]
        = Next ((init w cep)\<lparr>ctxDone := True, console := [Searching cep, Timeout],
            mainPC := M_Exit\<rparr>)"
      by (simp add: init_def step_def main_defs timer_defs)
    with 1 show ?thesis by (intro exI conjI) (assumption, simp_all)
  next
    case 2
    from 2(1) obtain t where "sends (task_of t (init w cep)) = [r]" by (rule responses_cases)
    then obtain ls s where "run (init w cep) ls = Next s" "mainPC s \<noteq> M_Select"
      "console s = Searching cep # answer r"
      by (rule run_winner) blast
    with 2(3) show ?thesis by blast
  next
    case 3
    from 3(1) obtain t where t: "sends (task_of t (init w cep)) = [r]" by (rule responses_cases)
    from 3(3) show ?thesis
    proof (cases rule: comparisons_cases)
      case 1
      from t obtain ls s where "run (init w cep) ls = Next s" "mainPC s \<noteq> M_Select"
        "console s = Searching cep # answer r"
        by (rule run_winner) blast
      with 1 3(4) show ?thesis by auto
    next
      case (2 it1 it2 cmp')
      from run_success [OF t 3(2) 2(1,2,4)] 2(3) 3(4) show ?thesis by simp
    qed
  qed
qed

theorem timed_console_spec_complete_witness:
  "\<exists>ls s. run (init world_brasil_down ''01153000'') ls = Next s \<and> mainPC s \<noteq> M_Select
     \<and> console s =
         [Searching ''01153000'', Fastest_Response ''ViaCEP'' (Some 80),
          Address ''01153-000'' ''SP'' ''Sao Paulo'' ''Barra Funda'' ''Rua Vitorino Carmilo'',
          Compare_Header, Compare_Unavailable]"
proof -
  have "[Searching ''01153000'', Fastest_Response ''ViaCEP'' (Some 80),
      Address ''01153-000'' ''SP'' ''Sao Paulo'' ''Barra Funda'' ''Rua Vitorino Carmilo'',
      Compare_Header, Compare_Unavailable]
    \<in> set (timed_outcomes world_brasil_down ''01153000'')"
    by (simp add: console_defs eval_defs exchange_defs http_body_def StatusOK_def failed_def
        sample_via_def)
  from timed_console_spec_complete [OF this] show ?thesis .
qed

section \<open>When the timeout is reported\<close>

text \<open>
  What the console says about the schedule that produced it. \<open>timeout_history\<close> relates a
  configuration to the labels executed so far: while \<open>main\<close> waits in its first \<open>select\<close>
  it has received nothing, and the context is done only if the deadline has expired; and
  if the timeout line is on the console, it is the whole answer, \<open>main\<close> has returned,
  the deadline has expired and \<open>main\<close> never received a response.
\<close>

definition timeout_history :: "string \<Rightarrow> label list \<Rightarrow> config \<Rightarrow> bool" where
  "timeout_history cep ls s \<longleftrightarrow>
     (mainPC s = M_Select \<longrightarrow>
        console s = [Searching cep] \<and> Recv \<notin> set ls \<and> (ctxDone s \<longrightarrow> Deadline \<in> set ls)) \<and>
     (Timeout \<in> set (console s) \<longrightarrow>
        console s = [Searching cep, Timeout] \<and> mainPC s = M_Exit \<and> Deadline \<in> set ls
        \<and> Recv \<notin> set ls)"

lemma timeout_not_answer [simp]: "Timeout \<notin> set (print_address d)"
  by (cases d) simp_all

lemma step_timeout_history:
  assumes "inv pB pV s" and "timeout_history cep ls s" and "step s l = Next s'"
  shows "timeout_history cep (ls @ [l]) s'"
proof -
  from assms(3) have ne: "mainPC s \<noteq> M_Exit" by (auto simp: step_def split: if_splits)
  with assms(2) have nt: "Timeout \<notin> set (console s)" by (auto simp: timeout_history_def)
  from assms(3) show ?thesis
  proof (cases rule: step_cases)
    case (Task t)
    with assms(2) nt show ?thesis by (auto simp: timeout_history_def task_step_frame)
  next
    case Recv
    from Recv(2) show ?thesis using assms(2) nt Recv(1)
      by (cases rule: main_recv_cases) (auto simp: timeout_history_def)
  next
    case Agg_Print
    with assms(1,2) nt show ?thesis
      by (auto simp: agg_print_Next timeout_history_def inv_def inv_agg_def)
  qed (use assms(1,2) nt in \<open>auto simp: op_Next timeout_history_def inv_def inv_agg_def\<close>)
qed

lemma run_timeout_history:
  assumes "run (init w cep) ls = Next s"
  shows "timeout_history cep ls s"
  using assms unfolding run_def
proof (induction rule: exec_history_invariant)
  case start
  show ?case by (simp add: timeout_history_def init_def)
next
  case (step ls s l s')
  from step.hyps(1) have "reachable w cep s"
    by (auto simp: reachable_def reach_iff_exec)
  from step_timeout_history [OF reachable_inv [OF this] step.IH step.hyps(2)] show ?case .
qed

text \<open>
  C22. A timeout is reported only after the deadline, and only instead of an answer. In
  every run of the timed program from its start, if the timeout line is on the console
  then the one-second deadline has expired during the run, \<open>main\<close> has never received a
  response, nothing but the search line and the timeout line has been printed, and
  \<open>main\<close> has returned.
\<close>

theorem timeout_only_after_deadline:
  assumes "run (init w cep) ls = Next s" and "Timeout \<in> set (console s)"
  shows "Deadline \<in> set ls \<and> Recv \<notin> set ls \<and> console s = [Searching cep, Timeout]
         \<and> mainPC s = M_Exit"
  using run_timeout_history [OF assms(1)] assms(2) by (simp add: timeout_history_def)

theorem timeout_only_after_deadline_witness:
  "Deadline \<in> set [Task Via, Deadline, Task Via, Ctx_Done] \<and>
   Recv \<notin> set [Task Via, Deadline, Task Via, Ctx_Done] \<and>
   console (after (init world_both_ok ''01153000'') [Task Via, Deadline, Task Via, Ctx_Done])
     = [Searching ''01153000'', Timeout] \<and>
   mainPC (after (init world_both_ok ''01153000'') [Task Via, Deadline, Task Via, Ctx_Done])
     = M_Exit"
proof -
  have r: "run (init world_both_ok ''01153000'') [Task Via, Deadline, Task Via, Ctx_Done]
      = Next (after (init world_both_ok ''01153000'') [Task Via, Deadline, Task Via, Ctx_Done])"
    by (simp add: eval_defs)
  have t: "Timeout \<in> set (console (after (init world_both_ok ''01153000'')
      [Task Via, Deadline, Task Via, Ctx_Done]))"
    by (simp add: eval_defs)
  from timeout_only_after_deadline [OF r t] show ?thesis .
qed

section \<open>The usage line\<close>

lemma usage_not_answer [simp]: "Usage \<notin> set (answer r)"
  by (cases "Error r"; cases "Data r") (simp_all add: answer_def)

lemma comparisons_compare_lines:
  assumes "cmp \<in> set (comparisons tr)"
  shows "list_all compare_line cmp"
proof -
  from assms obtain b where b: "b \<in> set (blocks tr)" "prefix cmp b"
    by (auto simp: in_comparisons)
  from b(1) have "list_all compare_line b"
    by (auto simp: in_blocks)
  with set_mono_prefix [OF b(2)] show ?thesis
    by (auto simp: list_all_iff)
qed

lemma reachable_no_usage:
  assumes "reachable w cep s"
  shows "Usage \<notin> set (console s) \<and> hd (console s) = Searching cep"
proof (cases "aggPC s = A_Idle")
  case True
  with reachable_console [OF assms] show ?thesis
    unfolding inv_console_def by (cases "mainPC s = M_Select") auto
next
  case False
  from reachable_console [OF assms] have "inv_console cep (responses w cep) (timings w cep) s"
    by simp
  then show ?thesis using False
  proof (cases rule: inv_console_started)
    case (printed r cmp)
    from comparisons_compare_lines [OF agg_printed_comparisons [OF printed(5) False]]
    have "Usage \<notin> set cmp" by (auto simp: list_all_iff)
    with printed(4) show ?thesis by simp
  qed
qed

text \<open>
  C32. The usage line is printed exactly when the program is given no postal code, and
  then nothing else happens. Whatever the scheduler does after \<open>main\<close> has started
  with fewer than two arguments, the configuration stays the one in which the console
  holds the usage line alone, no lookup task exists, the wait group counts nothing and
  the comparison routine was never started. With an argument, every configuration the
  program reaches has the search line for that argument first on its console and the
  usage line nowhere.
\<close>

theorem usage_only_without_argument:
  assumes "reach step (main_start w args) s"
  shows "(length args < 2 \<longrightarrow>
            console s = [Usage] \<and> mainPC s = M_Exit \<and> brasilTask s = [] \<and> viaTask s = []
            \<and> wg s = 0 \<and> aggPC s = A_Idle \<and> resultChan s = [] \<and> timingResults s = []) \<and>
         (2 \<le> length args \<longrightarrow>
            Usage \<notin> set (console s) \<and> hd (console s) = Searching (args ! 1))"
proof (cases "length args < 2")
  case True
  then have "mainPC (main_start w args) = M_Exit"
    by (simp add: main_start_def usage_exit_def)
  from reach_exited [OF assms this] True show ?thesis
    by (simp add: main_start_def usage_exit_def)
next
  case False
  with assms have "reachable w (args ! 1) s"
    by (simp add: main_start_def reachable_def)
  from reachable_no_usage [OF this] False show ?thesis by simp
qed

theorem usage_only_without_argument_witness:
  "console (main_start world_both_ok [''main'']) = [Usage] \<and>
   mainPC (main_start world_both_ok [''main'']) = M_Exit \<and>
   brasilTask (main_start world_both_ok [''main'']) = [] \<and>
   viaTask (main_start world_both_ok [''main'']) = [] \<and>
   wg (main_start world_both_ok [''main'']) = 0 \<and>
   aggPC (main_start world_both_ok [''main'']) = A_Idle"
proof -
  have "reach step (main_start world_both_ok [''main''])
      (main_start world_both_ok [''main''])"
    by (rule reach.start)
  from usage_only_without_argument [OF this] show ?thesis
    by simp
qed

end
