(* ===== verification/Spec2Isabelle.thy ===== *)
theory Spec2Isabelle
  imports Cep_Refine Cep_Console
begin

text \<open>
  \<^bold>\<open>The program.\<close> The repository holds a command-line tool that asks two public web
  services, BrasilAPI and ViaCEP, for the address of a Brazilian postal code (CEP) at the
  same time and prints the answer that arrives first. It exists in two versions.

  \<^item> \<open>src/unnamed/part_000\<close>, the basic race: \<open>main\<close> prints the search line, creates a
    context with a deadline of one second and a result channel of capacity 2, starts
    the goroutines \<open>fetchBrasilAPI\<close> and \<open>fetchViaCEP\<close>, and waits in one \<open>select\<close> for
    the first \<open>Response\<close> or for the deadline. It prints the error of that response, or
    its API name and address, or the timeout line, and returns.

  \<^item> \<open>src/main.go\<close>, the timed race: each lookup also measures its duration and, on
    success, stores it in a table shared under a mutex; both signal a wait group when
    they return. After a successful first response \<open>main\<close> starts a detached routine
    that waits for both lookups and prints a comparison of their durations, waits up to
    100 ms for the second response, sleeps 200 ms and returns.

  \<^bold>\<open>The theories\<close>, in the order of their imports:

  \<^descr>[\<open>Cep_Prelude\<close>] names the base types (\<open>duration\<close> is \<open>int\<close>: the program compares
    and prints durations and never computes with two of them, so nothing can wrap),
    declares the fact collections, and proves the lemmas on association lists by which
    the timing table, a Go \<open>map[string]time.Duration\<close>, is read and updated.

  \<^descr>[\<open>Cep_Data\<close>] the structs of both files as records (\<open>BrasilAPICEP\<close>, \<open>ViaCEP\<close>;
    \<open>Response\<close> of \<open>main.go\<close> extends \<open>Response0\<close> of \<open>part_000\<close> by \<open>Duration\<close>), the
    \<open>interface{}\<close> field \<open>Data\<close> as the datatype \<open>payload\<close>, the errors the lookups
    construct as \<open>go_error\<close>, one constructor of \<open>out_line\<close> per \<open>Printf\<close>/\<open>Println\<close> of
    the sources with the arguments of its format string, and \<open>print_address\<close>, the type
    switch of \<open>main\<close>.

  \<^descr>[\<open>Cep_Lookup\<close>] \<open>fetchBrasilAPI\<close> and \<open>fetchViaCEP\<close> of both files. What the
    libraries return (request construction, transport, status, body, decoding, measured
    time) is the parameter \<open>world\<close>; \<open>http_body\<close> is the chain of early returns up to the
    body. A lookup evaluates to its program: the list of the operations it performs on
    shared objects (\<open>Lock\<close>, \<open>Store\<close>, \<open>Unlock\<close>, \<open>Send\<close>, \<open>WgDone\<close>), which the race
    systems execute one at a time. The lemmas give the two shapes a program can have
    (\<open>task_prog_cases\<close>), what it sends and stores, and the position of a goroutine in
    its program (\<open>holds\<close>, \<open>running\<close>, \<open>performed\<close>).

  \<^descr>[\<open>Cep_Sync\<close>] the buffered channel, \<open>sync.WaitGroup\<close> and \<open>sync.Mutex\<close>: the value
    each holds and one function per operation, whose \<open>outcome\<close> is the next value,
    \<open>Blocked\<close>, or a \<open>Panic\<close> (negative counter, unlock of an unlocked mutex).

  \<^descr>[\<open>Cep_System\<close>] what the two races share as interleaved systems: a system is a step
    function over labels; \<open>exec\<close> runs a schedule, \<open>reach\<close> is reachability; the proof
    rules for invariants of configurations (\<open>reach_invariant\<close>) and of a configuration
    with the schedule that led to it (\<open>exec_history_invariant\<close>), for a measure bounding
    every schedule (\<open>exec_measure\<close>) and for simulation (\<open>simulates_reach\<close>).

  \<^descr>[\<open>Cep_Timing\<close>] the comparison block of \<open>main.go\<close>: \<open>visit\<close> is the body of the loop
    over the table, \<open>find_extremes\<close> the loop, \<open>report\<close> the block with its guard
    \<open>len(timingResults) > 1\<close>. Go iterates a map in an unspecified order, so the order
    is a parameter and the lemmas hold for every permutation of the table.

  \<^descr>[\<open>Cep_Race\<close>] \<open>main\<close> of \<open>main.go\<close> with the goroutines it starts, as the system
    \<open>step\<close> over \<open>config\<close>: the program counters of \<open>main\<close> and of the comparison routine,
    the remaining program of each lookup, channel, counter, mutex, table, the two
    timers and the console. One definition per \<open>select\<close> case and per statement that
    touches a shared object; the comparison routine prints line by line, since the
    process may end in the middle of its output. \<open>main_start\<close> is \<open>main\<close> from its
    first line: with an argument the race starts in \<open>init\<close>; without one \<open>main\<close> has
    printed the usage line and returned before it created anything, which is the
    configuration \<open>usage_exit\<close>. The inductive invariant \<open>inv\<close> relates the counter, the
    mutex, the channel and the table to the positions of the goroutines; from it follow
    absence of panics, mutual exclusion, that sends never block, what the comparison
    routine sees after \<open>wg.Wait()\<close>, and with the measure \<open>fuel\<close> the bound on runs.
    The last section builds schedules: a task whose partner is outside the critical
    section can run on to any point of its program (\<open>run_task_steps\<close>).

  \<^descr>[\<open>Cep_Simple\<close>] \<open>main\<close> of \<open>part_000\<close> as the system \<open>step0\<close> over \<open>config0\<close>, its
    invariant, its bound, and its specification \<open>outcomes0\<close>: the three consoles a race
    can end with, proved sound and complete. The lookups of this file perform one
    send each; the cases of \<open>perform0\<close> for the other operations are never executed.

  \<^descr>[\<open>Cep_Refine\<close>] the abstraction \<open>basic_of\<close> from \<open>config\<close> to \<open>config0\<close> and the proof
    that \<open>step\<close> is simulated by \<open>step0\<close>.

  \<^descr>[\<open>Cep_Console\<close>] the specification \<open>timed_outcomes\<close> of what \<open>main.go\<close> prints: the
    answer to one response, followed on success by a beginning of the comparison block
    in one of the iteration orders of the table; the proof that every reachable
    console is one of them, and the converse, that each of them is printed by some
    schedule. The history invariant \<open>timeout_history\<close> shows that the
    timeout line is printed only after the deadline and only if \<open>main\<close> received
    nothing; the last section shows that the usage line is printed exactly when no
    postal code is given, and that nothing is started then.

  \<^descr>[\<open>Spec2Isabelle\<close>] (this theory) the properties that span both programs.

  \<^bold>\<open>Modelling decisions.\<close>

  \<^item> Concurrency is interleaving: a \<open>label\<close> names the goroutine that performs its next
    operation, or the timer that fires. Properties quantify over all schedules. The
    statements of a lookup before its first operation on a shared object (the HTTP
    exchange) involve no shared state and are evaluated when the race starts.
  \<^item> Time is not measured. The deadline of the context and the 100 ms timer may fire at
    any moment at which they exist, so every order of events that some timing produces
    is a schedule of the model; the converse does not hold, and properties of the form
    ``there is a schedule'' name the timing they need in their text. The outcome of a
    request is fixed by \<open>world\<close> and does not depend on the context being done; a
    cancelled request is a \<open>world\<close> whose exchange reports a transport error.
  \<^item> When \<open>main\<close> returns the process ends: no step is possible after \<open>M_Exit\<close>
    (\<open>S_Exit\<close>), whatever the other goroutines were about to do.
  \<^item> A panic is an outcome of a step, not a stuck state, so ``no panic'' is a theorem
    about reachable configurations and not a property of the definitions.

  \<^bold>\<open>Bounds.\<close> The capacity of the channel is the constant \<open>chan_cap = 2\<close> of the sources.
  No fuel is needed: every step decreases \<open>fuel\<close> (\<open>fuel0\<close>), which is at most 24 (is 4)
  at the start, and both bounds are attained by the schedules of the instances.

  \<^bold>\<open>Not modelled.\<close> The libraries the sources call (\<open>net/http\<close>, \<open>encoding/json\<close>,
  \<open>context\<close>, \<open>time\<close>) are represented by their results only. The text of the printed
  lines (format verbs, the rendering of a duration in seconds) is not modelled: a
  line is its constructor and arguments. Fairness of the scheduler is not assumed, so
  liveness is stated as the existence of a schedule from every configuration.
\<close>

section \<open>The timed race refines the basic race\<close>

text \<open>
  C9. The timed program refines the basic one. Every configuration the program of
  \<open>main.go\<close> reaches corresponds to a configuration the program of \<open>part_000\<close> reaches in
  the same world: while \<open>main\<close> waits in its first \<open>select\<close> the basic configuration is the
  timed one with the timing forgotten; afterwards the basic program has returned with
  the same lines printed, comparison lines and durations apart.
\<close>

theorem timed_race_refines_basic_race:
  "reachable w cep c \<Longrightarrow> \<exists>a. reachable0 w cep a \<and> refines a c"
  by (rule reachable_refines)

theorem timed_race_refines_basic_race_witness:
  "\<exists>a. reachable0 world_both_ok ''01153000'' a
     \<and> refines a (after (init world_both_ok ''01153000'')
         [Task Via, Task Via, Task Via, Task Via, Recv, Task Brasil])"
  using timed_race_refines_basic_race [OF reachable_from_start] .

text \<open>
  C8. The timed program prints one of the three outcomes of the race. Once \<open>main\<close> of
  \<open>main.go\<close> has left its first \<open>select\<close>, the console without the comparison lines and
  the durations is the search line followed by the timeout line or by the answer to the
  response of one of the two lookups; no schedule prints two answers or none.
\<close>

theorem timed_race_prints_one_outcome:
  assumes "reachable w cep c" and "mainPC c \<noteq> M_Select"
  shows "basic_console (console c) \<in> set (outcomes0 w cep)"
proof -
  from reachable_refines [OF assms(1)] obtain a where
    a: "reachable0 w cep a" "refines a c" by blast
  from a(2) assms(2) have "mainPC0 a = S_Exit" "console0 a = basic_console (console c)"
    by (simp_all add: refines_def)
  with reachable0_inv [OF a(1)] show ?thesis
    by (simp add: inv0_def inv_console0_def set_outcomes0)
qed

theorem timed_race_prints_one_outcome_witness:
  "basic_console (console (after (init world_both_ok ''01153000'')
       [Task Via, Task Via, Task Via, Task Via, Recv, Task Brasil]))
     \<in> set (outcomes0 world_both_ok ''01153000'')"
  using timed_race_prints_one_outcome [OF reachable_from_start,
      of world_both_ok "''01153000''" "[Task Via, Task Via, Task Via, Task Via, Recv, Task Brasil]"]
  by (simp add: eval_defs)

text \<open>
  C16. The timed program can still print every outcome of the race. For each of the
  three outcomes the basic program's specification allows there is a schedule of
  \<open>main.go\<close> after which \<open>main\<close> has left its first \<open>select\<close> with exactly this outcome on
  the console, comparison lines and durations apart: timing took no behaviour away.
\<close>

theorem timed_race_outcome_complete:
  assumes "c \<in> set (outcomes0 w cep)"
  shows "\<exists>ls s. run (init w cep) ls = Next s \<and> mainPC s \<noteq> M_Select
           \<and> basic_console (console s) = c"
proof -
  obtain rb rv where rb: "sends (fetchBrasilAPI w cep) = [rb]"
    and rv: "sends (fetchViaCEP w cep) = [rv]"
    using task_prog_sends [OF fetchBrasilAPI_task_prog, of w cep]
      task_prog_sends [OF fetchViaCEP_task_prog, of w cep] by blast
  have "responses0 w cep = [untimed rb, untimed rv]"
    using untimed_fetch [of w cep, symmetric] rb rv
    by (simp add: responses0_def untimed_prog_def)
  with assms consider "c = [Searching cep, Timeout]" | "c = Searching cep # answer0 (untimed rb)"
    | "c = Searching cep # answer0 (untimed rv)"
    by (auto simp: set_outcomes0)
  then show ?thesis
  proof cases
    case 1
    with run_timeout [of w cep] show ?thesis by blast
  next
    case 2
    have "task_prog ''BrasilAPI'' (task_of Brasil (init w cep))"
      "sends (task_of Brasil (init w cep)) = [rb]"
      by (simp_all add: task_of_def init_def rb)
    from run_answer [OF this] 2 show ?thesis by blast
  next
    case 3
    have "task_prog ''ViaCEP'' (task_of Via (init w cep))"
      "sends (task_of Via (init w cep)) = [rv]"
      by (simp_all add: task_of_def init_def rv)
    from run_answer [OF this] 3 show ?thesis by blast
  qed
qed

theorem timed_race_outcome_complete_witness:
  "\<exists>ls s. run (init world_both_ok ''01153000'') ls = Next s \<and> mainPC s \<noteq> M_Select
     \<and> basic_console (console s) = [Searching ''01153000'', Timeout]"
  using timed_race_outcome_complete [of "[Searching ''01153000'', Timeout]" world_both_ok "''01153000''"]
  by (simp add: outcomes0_def)

end
